theory Spec2Isabelle
  imports Complex_Main "HOL-Library.AList"
begin

section \<open>Cut-flow filters of rootpy.tree.filtering\<close>

text \<open>
  The module \<^verbatim>\<open>rootpy/tree/filtering.py\<close> counts how many events (or objects) reach and
  survive each stage of a selection. This theory embeds its classes \<^verbatim>\<open>Filter\<close>,
  \<^verbatim>\<open>EventFilter\<close>, \<^verbatim>\<open>ObjectFilter\<close>, \<^verbatim>\<open>FilterList\<close> and \<^verbatim>\<open>EventFilterList\<close>.

  Conventions of the embedding:
  \<^item> a Python \<^verbatim>\<open>dict\<close> is an association list with the keys in iteration order
    (\<^verbatim>\<open>d[k]\<close> is \<^const>\<open>map_of\<close>, \<^verbatim>\<open>d[k] = v\<close> is \<^const>\<open>AList.update\<close>); the order
    matters in \<^verbatim>\<open>__init__\<close>, whose loop variable outlives the loop;
  \<^item> the integer counters are \<^typ>\<open>int\<close>; a number in a \<^verbatim>\<open>dict\<close> (a weight, a
    tally starting from \<^verbatim>\<open>0.\<close>, a value of \<^verbatim>\<open>details\<close>) is a Python float: a finite
    number, an infinity or a NaN;
  \<^item> an exception is a value \<open>Inl e\<close> of the sum type \<open>error + 'a\<close>;
  \<^item> a method that mutates \<^verbatim>\<open>self\<close> returns the updated object;
  \<^item> the callables a user supplies (count functions, \<^verbatim>\<open>passes\<close>, \<^verbatim>\<open>filtered\<close>, hooks)
    are total functions; a hook acts on a state \<^typ>\<open>'w\<close> outside the filter.
\<close>

subsection \<open>Values\<close>

datatype error = ValueError | KeyError | TypeError | AttributeError

type_synonym ('k, 'v) dict = "('k \<times> 'v) list"

text \<open>
  A Python float. The finite numbers are taken as the reals, with exact sums: rounding
  and overflow are monotone and change no comparison of this theory. An infinity and a
  NaN are values of their own: \<^verbatim>\<open>inf + (-inf)\<close> and every sum with a NaN are NaN, and
  every comparison with a NaN is false.
\<close>

datatype pyfloat = Fin real | PInf | MInf | NaN

instantiation pyfloat :: "{zero, plus, ord}"
begin

definition zero_pyfloat :: pyfloat where
  "zero_pyfloat = Fin 0"

fun plus_pyfloat :: "pyfloat \<Rightarrow> pyfloat \<Rightarrow> pyfloat" where
  "plus_pyfloat NaN _ = NaN"
| "plus_pyfloat _ NaN = NaN"
| "plus_pyfloat (Fin a) (Fin b) = Fin (a + b)"
| "plus_pyfloat PInf MInf = NaN"
| "plus_pyfloat MInf PInf = NaN"
| "plus_pyfloat PInf _ = PInf"
| "plus_pyfloat _ PInf = PInf"
| "plus_pyfloat MInf _ = MInf"
| "plus_pyfloat _ MInf = MInf"

fun less_eq_pyfloat :: "pyfloat \<Rightarrow> pyfloat \<Rightarrow> bool" where
  "less_eq_pyfloat NaN _ = False"
| "less_eq_pyfloat _ NaN = False"
| "less_eq_pyfloat (Fin a) (Fin b) = (a \<le> b)"
| "less_eq_pyfloat MInf _ = True"
| "less_eq_pyfloat _ PInf = True"
| "less_eq_pyfloat PInf _ = False"
| "less_eq_pyfloat _ MInf = False"

fun less_pyfloat :: "pyfloat \<Rightarrow> pyfloat \<Rightarrow> bool" where
  "less_pyfloat NaN _ = False"
| "less_pyfloat _ NaN = False"
| "less_pyfloat (Fin a) (Fin b) = (a < b)"
| "less_pyfloat PInf _ = False"
| "less_pyfloat _ MInf = False"
| "less_pyfloat MInf _ = True"
| "less_pyfloat _ PInf = True"

instance ..

end

text \<open>The values a serialized state mapping holds.\<close>

datatype pyval = PyStr string | PyInt int | PyDict "(string, pyfloat) dict"

subsection \<open>Filter\<close>

text \<open>
  The attributes that \<^verbatim>\<open>Filter.__init__\<close> sets. The attribute \<^verbatim>\<open>total\<close> is the field
  \<open>total_cnt\<close>, since \<open>total\<close> is a constant of HOL. \<open>'e\<close> is the type of events and
  \<open>'w\<close> the type of the state that hooks act on.
\<close>

record ('e, 'w) Filter =
  total_cnt :: int
  passing :: int
  count_funcs_total :: "(string, pyfloat) dict"
  count_funcs_passing :: "(string, pyfloat) dict"
  count_funcs :: "(string, 'e \<Rightarrow> pyfloat) dict"
  details :: "(string, pyfloat) dict"
  name :: string
  hooks :: "('w \<Rightarrow> 'w) list option"
  passthrough :: bool
  was_passed :: bool

text \<open>
  The loop of \<^verbatim>\<open>__init__\<close>:
  \<^verbatim>\<open>for name in self.count_funcs.iterkeys(): ...[name] = 0.\<close>.
  Its variable is the parameter \<^verbatim>\<open>name\<close> of \<^verbatim>\<open>__init__\<close>, so the loop also returns the
  value \<^verbatim>\<open>name\<close> has when it ends.
\<close>

fun init_loop ::
  "string list \<Rightarrow> string option \<Rightarrow> (string, pyfloat) dict \<Rightarrow> (string, pyfloat) dict \<Rightarrow>
   string option \<times> (string, pyfloat) dict \<times> (string, pyfloat) dict" where
  "init_loop [] nm tot pas = (nm, tot, pas)"
| "init_loop (k # ks) nm tot pas =
     init_loop ks (Some k) (AList.update k 0 tot) (AList.update k 0 pas)"

text \<open>
  \<^verbatim>\<open>Filter.__init__(self, hooks=None, passthrough=False, name=None, count_funcs=None)\<close>;
  \<open>cls\<close> is \<^verbatim>\<open>self.__class__.__name__\<close>.
\<close>

definition Filter_init ::
  "string \<Rightarrow> ('w \<Rightarrow> 'w) list option \<Rightarrow> bool \<Rightarrow> string option \<Rightarrow>
   (string, 'e \<Rightarrow> pyfloat) dict option \<Rightarrow> ('e, 'w) Filter" where
  "Filter_init cls hooks_arg passthrough_arg name_arg count_funcs_arg =
     (let cfs = (case count_funcs_arg of None \<Rightarrow> [] | Some c \<Rightarrow> c) in
      case init_loop (map fst cfs) name_arg [] [] of
        (name_var, tot, pas) \<Rightarrow>
          \<lparr> total_cnt = 0, passing = 0,
            count_funcs_total = tot, count_funcs_passing = pas,
            count_funcs = cfs, details = [],
            name = (case name_var of None \<Rightarrow> cls | Some n \<Rightarrow> n),
            hooks = hooks_arg, passthrough = passthrough_arg, was_passed = False \<rparr>)"

text \<open>\<^verbatim>\<open>Filter.__getstate__\<close>: the state mapping, a dict literal of six items.\<close>

definition Filter_getstate :: "('e, 'w, 'z) Filter_scheme \<Rightarrow> (string, pyval) dict" where
  "Filter_getstate self =
     [(''name'', PyStr (name self)),
      (''total'', PyInt (total_cnt self)),
      (''passing'', PyInt (passing self)),
      (''details'', PyDict (details self)),
      (''count_funcs_total'', PyDict (count_funcs_total self)),
      (''count_funcs_passing'', PyDict (count_funcs_passing self))]"

text \<open>
  \<^verbatim>\<open>state[key]\<close>, read into a field of the record. A missing key raises \<^verbatim>\<open>KeyError\<close>.
  Python would store a value of any kind in the attribute; the record has no place for
  a value of the wrong kind, and the model answers \<^const>\<open>TypeError\<close> there.
\<close>

definition state_str :: "(string, pyval) dict \<Rightarrow> string \<Rightarrow> error + string" where
  "state_str state key =
     (case map_of state key of
        None \<Rightarrow> Inl KeyError | Some (PyStr s) \<Rightarrow> Inr s | Some _ \<Rightarrow> Inl TypeError)"

definition state_int :: "(string, pyval) dict \<Rightarrow> string \<Rightarrow> error + int" where
  "state_int state key =
     (case map_of state key of
        None \<Rightarrow> Inl KeyError | Some (PyInt i) \<Rightarrow> Inr i | Some _ \<Rightarrow> Inl TypeError)"

definition state_dict :: "(string, pyval) dict \<Rightarrow> string \<Rightarrow> error + (string, pyfloat) dict" where
  "state_dict state key =
     (case map_of state key of
        None \<Rightarrow> Inl KeyError | Some (PyDict d) \<Rightarrow> Inr d | Some _ \<Rightarrow> Inl TypeError)"

text \<open>\<^verbatim>\<open>Filter.__setstate__\<close>: six assignments, in the order of the source.\<close>

definition Filter_setstate ::
  "('e, 'w, 'z) Filter_scheme \<Rightarrow> (string, pyval) dict \<Rightarrow> error + ('e, 'w, 'z) Filter_scheme" where
  "Filter_setstate self state =
     (case state_str state ''name'' of Inl err \<Rightarrow> Inl err | Inr n \<Rightarrow>
      case state_int state ''total'' of Inl err \<Rightarrow> Inl err | Inr t \<Rightarrow>
      case state_int state ''passing'' of Inl err \<Rightarrow> Inl err | Inr p \<Rightarrow>
      case state_dict state ''details'' of Inl err \<Rightarrow> Inl err | Inr d \<Rightarrow>
      case state_dict state ''count_funcs_total'' of Inl err \<Rightarrow> Inl err | Inr ct \<Rightarrow>
      case state_dict state ''count_funcs_passing'' of Inl err \<Rightarrow> Inl err | Inr cp \<Rightarrow>
        Inr (self\<lparr> name := n, total_cnt := t, passing := p, details := d,
                   count_funcs_total := ct, count_funcs_passing := cp \<rparr>))"

text \<open>
  The list comprehension of \<^verbatim>\<open>Filter.add\<close>, over \<^verbatim>\<open>left.details.keys()\<close>:
  \<^verbatim>\<open>(detail, left.details[detail] + right.details[detail])\<close>.
\<close>

fun add_details ::
  "string list \<Rightarrow> (string, pyfloat) dict \<Rightarrow> (string, pyfloat) dict \<Rightarrow> error + (string \<times> pyfloat) list" where
  "add_details [] l r = Inr []"
| "add_details (detail # ks) l r =
     (case map_of l detail of None \<Rightarrow> Inl KeyError | Some a \<Rightarrow>
      case map_of r detail of None \<Rightarrow> Inl KeyError | Some b \<Rightarrow>
      case add_details ks l r of Inl err \<Rightarrow> Inl err | Inr ps \<Rightarrow> Inr ((detail, a + b) # ps))"

text \<open>\<^verbatim>\<open>dict(pairs)\<close>: a later pair replaces an earlier one with the same key.\<close>

definition dict_of :: "('k \<times> 'v) list \<Rightarrow> ('k, 'v) dict" where
  "dict_of ps = fold (\<lambda>(k, v). AList.update k v) ps []"

text \<open>
  \<^verbatim>\<open>Filter.add(cls, left, right)\<close>. The operands may be of any of the filter classes; the
  result is a plain \<^verbatim>\<open>Filter()\<close> with four attributes overwritten.
\<close>

definition Filter_add ::
  "('e, 'w, 'y) Filter_scheme \<Rightarrow> ('e, 'w, 'z) Filter_scheme \<Rightarrow> error + ('e, 'w) Filter" where
  "Filter_add left right =
     (if name left \<noteq> name right then Inl ValueError
      else case add_details (map fst (details left)) (details left) (details right) of
        Inl err \<Rightarrow> Inl err
      | Inr ps \<Rightarrow>
          Inr ((Filter_init ''Filter'' None False None None)
                 \<lparr> name := name left,
                   total_cnt := total_cnt left + total_cnt right,
                   passing := passing left + passing right,
                   details := dict_of ps \<rparr>))"

text \<open>
  The loops of \<^verbatim>\<open>passed\<close> and \<^verbatim>\<open>failed\<close> over \<^verbatim>\<open>self.count_funcs.iteritems()\<close>.
  \<^verbatim>\<open>d[name] += count\<close> reads \<^verbatim>\<open>d[name]\<close> first and raises \<^verbatim>\<open>KeyError\<close> when it is missing.
\<close>

fun passed_loop ::
  "(string, 'e \<Rightarrow> pyfloat) dict \<Rightarrow> 'e \<Rightarrow> (string, pyfloat) dict \<Rightarrow> (string, pyfloat) dict \<Rightarrow>
   error + ((string, pyfloat) dict \<times> (string, pyfloat) dict)" where
  "passed_loop [] event tot pas = Inr (tot, pas)"
| "passed_loop ((nm, func) # rest) event tot pas =
     (let count = func event in
      case map_of tot nm of None \<Rightarrow> Inl KeyError | Some t \<Rightarrow>
      let tot' = AList.update nm (t + count) tot in
      case map_of pas nm of None \<Rightarrow> Inl KeyError | Some p \<Rightarrow>
        passed_loop rest event tot' (AList.update nm (p + count) pas))"

fun failed_loop ::
  "(string, 'e \<Rightarrow> pyfloat) dict \<Rightarrow> 'e \<Rightarrow> (string, pyfloat) dict \<Rightarrow> error + (string, pyfloat) dict" where
  "failed_loop [] event tot = Inr tot"
| "failed_loop ((nm, func) # rest) event tot =
     (let count = func event in
      case map_of tot nm of None \<Rightarrow> Inl KeyError | Some t \<Rightarrow>
        failed_loop rest event (AList.update nm (t + count) tot))"

definition Filter_passed ::
  "('e, 'w, 'z) Filter_scheme \<Rightarrow> 'e \<Rightarrow> error + ('e, 'w, 'z) Filter_scheme" where
  "Filter_passed self event =
     (case passed_loop (count_funcs self) event (count_funcs_total self) (count_funcs_passing self) of
        Inl err \<Rightarrow> Inl err
      | Inr (tot, pas) \<Rightarrow>
          Inr (self\<lparr> total_cnt := total_cnt self + 1, passing := passing self + 1,
                     count_funcs_total := tot, count_funcs_passing := pas,
                     was_passed := True \<rparr>))"

definition Filter_failed ::
  "('e, 'w, 'z) Filter_scheme \<Rightarrow> 'e \<Rightarrow> error + ('e, 'w, 'z) Filter_scheme" where
  "Filter_failed self event =
     (case failed_loop (count_funcs self) event (count_funcs_total self) of
        Inl err \<Rightarrow> Inl err
      | Inr tot \<Rightarrow>
          Inr (self\<lparr> total_cnt := total_cnt self + 1, count_funcs_total := tot,
                     was_passed := False \<rparr>))"

subsection \<open>EventFilter\<close>

text \<open>
  \<^verbatim>\<open>class EventFilter(Filter)\<close>. The method \<^verbatim>\<open>passes\<close>, which a derived class overrides, is
  a field of the object; it answers \<^term>\<open>Some True\<close> or \<^term>\<open>Some False\<close> (a value that
  Python takes as true or as false) or \<^term>\<open>None\<close>.
\<close>

record ('e, 'w) EventFilter = "('e, 'w) Filter" +
  passes :: "'e \<Rightarrow> bool option"

definition EventFilter_init ::
  "string \<Rightarrow> ('e \<Rightarrow> bool option) \<Rightarrow> ('w \<Rightarrow> 'w) list option \<Rightarrow> bool \<Rightarrow> string option \<Rightarrow>
   (string, 'e \<Rightarrow> pyfloat) dict option \<Rightarrow> ('e, 'w) EventFilter" where
  "EventFilter_init cls passes_method hooks_arg passthrough_arg name_arg count_funcs_arg =
     Filter.extend (Filter_init cls hooks_arg passthrough_arg name_arg count_funcs_arg)
       (EventFilter.fields passes_method)"

text \<open>\<^verbatim>\<open>if self.hooks: for hook in self.hooks: hook()\<close>\<close>

definition run_hooks :: "('w \<Rightarrow> 'w) list option \<Rightarrow> 'w \<Rightarrow> 'w" where
  "run_hooks hs w =
     (case hs of None \<Rightarrow> w | Some l \<Rightarrow> if l = [] then w else fold (\<lambda>hook. hook) l w)"

text \<open>
  \<^verbatim>\<open>EventFilter.__call__(self, event)\<close>: the result is the state outside the filter, the
  filter and the returned boolean.
\<close>

definition EventFilter_call ::
  "('e, 'w, 'z) EventFilter_scheme \<Rightarrow> 'e \<Rightarrow> 'w \<Rightarrow>
   error + ('w \<times> ('e, 'w, 'z) EventFilter_scheme \<times> bool)" where
  "EventFilter_call self event w =
     (if passthrough self then
        (let w' = run_hooks (hooks self) w in
         case Filter_passed self event of
           Inl err \<Rightarrow> Inl err | Inr self' \<Rightarrow> Inr (w', self', True))
      else
        (case passes self event of
           None \<Rightarrow> Inr (w, self, False)
         | Some True \<Rightarrow>
             (let w' = run_hooks (hooks self) w in
              case Filter_passed self event of
                Inl err \<Rightarrow> Inl err | Inr self' \<Rightarrow> Inr (w', self', True))
         | Some False \<Rightarrow>
             (case Filter_failed self event of
                Inl err \<Rightarrow> Inl err | Inr self' \<Rightarrow> Inr (w, self', False))))"

subsection \<open>ObjectFilter\<close>

text \<open>
  \<^verbatim>\<open>class ObjectFilter(Filter)\<close>, with the attribute \<^verbatim>\<open>count_events\<close> and the method
  \<^verbatim>\<open>filtered\<close> that a derived class overrides. A collection is a list.
\<close>

record ('e, 'w, 'o) ObjectFilter = "('e, 'w) Filter" +
  count_events :: bool
  filtered :: "'e \<Rightarrow> 'o list \<Rightarrow> 'o list"

definition ObjectFilter_init ::
  "string \<Rightarrow> ('e \<Rightarrow> 'o list \<Rightarrow> 'o list) \<Rightarrow> bool \<Rightarrow> ('w \<Rightarrow> 'w) list option \<Rightarrow> bool \<Rightarrow>
   string option \<Rightarrow> (string, 'e \<Rightarrow> pyfloat) dict option \<Rightarrow> ('e, 'w, 'o) ObjectFilter" where
  "ObjectFilter_init cls filtered_method count_events_arg hooks_arg passthrough_arg name_arg
       count_funcs_arg =
     Filter.extend (Filter_init cls hooks_arg passthrough_arg name_arg count_funcs_arg)
       (ObjectFilter.fields count_events_arg filtered_method)"

text \<open>\<^verbatim>\<open>ObjectFilter.__call__(self, event, collection)\<close>\<close>

definition ObjectFilter_call ::
  "('e, 'w, 'o, 'z) ObjectFilter_scheme \<Rightarrow> 'e \<Rightarrow> 'o list \<Rightarrow>
   ('e, 'w, 'o, 'z) ObjectFilter_scheme \<times> 'o list" where
  "ObjectFilter_call self event collection =
     (let self1 = self\<lparr> was_passed := False \<rparr>;
          self2 = (if count_events self1
                   then self1\<lparr> total_cnt := total_cnt self1 + 1 \<rparr>
                   else self1\<lparr> total_cnt := total_cnt self1 + int (length collection) \<rparr>);
          collection' = (if \<not> passthrough self2 then filtered self2 event collection
                         else collection);
          self3 = (if length collection' > 0
                   then (let self2' = self2\<lparr> was_passed := True \<rparr> in
                         if count_events self2'
                         then self2'\<lparr> passing := passing self2' + 1 \<rparr>
                         else self2'\<lparr> passing := passing self2' + int (length collection') \<rparr>)
                   else self2)
      in (self3, collection'))"

subsection \<open>FilterList\<close>

text \<open>
  A \<^verbatim>\<open>FilterList\<close> holds filters and state mappings. \<^verbatim>\<open>merge\<close>, \<^verbatim>\<open>total\<close> and \<^verbatim>\<open>passing\<close>
  read only the attributes of the base class, so an element that is a filter is kept as
  its \<^verbatim>\<open>Filter\<close> part.
\<close>

datatype ('e, 'w) item = ItemFilter "('e, 'w) Filter" | ItemDict "(string, pyval) dict"

text \<open>
  \<^verbatim>\<open>if type(f1) is dict: _f1 = Filter(); _f1.__setstate__(f1); f1 = _f1\<close>
\<close>

definition upgrade :: "('e, 'w) item \<Rightarrow> error + ('e, 'w) Filter" where
  "upgrade f =
     (case f of
        ItemFilter g \<Rightarrow> Inr g
      | ItemDict state \<Rightarrow> Filter_setstate (Filter_init ''Filter'' None False None None) state)"

text \<open>The loop of \<^verbatim>\<open>FilterList.merge\<close> over \<^verbatim>\<open>zip(list1, list2)\<close>.\<close>

fun merge_loop ::
  "(('e, 'w) item \<times> ('e, 'w) item) list \<Rightarrow> error + ('e, 'w) item list" where
  "merge_loop [] = Inr []"
| "merge_loop ((f1, f2) # rest) =
     (case upgrade f1 of Inl err \<Rightarrow> Inl err | Inr g1 \<Rightarrow>
      case upgrade f2 of Inl err \<Rightarrow> Inl err | Inr g2 \<Rightarrow>
      case Filter_add g1 g2 of Inl err \<Rightarrow> Inl err | Inr s \<Rightarrow>
      case merge_loop rest of Inl err \<Rightarrow> Inl err | Inr out \<Rightarrow> Inr (ItemFilter s # out))"

text \<open>
  \<^verbatim>\<open>FilterList.merge(cls, list1, list2)\<close>. Both arguments are lists here, so the two
  \<^verbatim>\<open>isinstance(..., list)\<close> checks pass.
\<close>

definition FilterList_merge ::
  "('e, 'w) item list \<Rightarrow> ('e, 'w) item list \<Rightarrow> error + ('e, 'w) item list" where
  "FilterList_merge list1 list2 = merge_loop (zip list1 list2)"

text \<open>\<^verbatim>\<open>x.total\<close> and \<^verbatim>\<open>x.passing\<close> of an element; a \<^verbatim>\<open>dict\<close> has no such attribute.\<close>

definition item_total :: "('e, 'w) item \<Rightarrow> error + int" where
  "item_total x = (case x of ItemFilter f \<Rightarrow> Inr (total_cnt f) | ItemDict _ \<Rightarrow> Inl AttributeError)"

definition item_passing :: "('e, 'w) item \<Rightarrow> error + int" where
  "item_passing x = (case x of ItemFilter f \<Rightarrow> Inr (passing f) | ItemDict _ \<Rightarrow> Inl AttributeError)"

text \<open>The properties \<^verbatim>\<open>FilterList.total\<close> and \<^verbatim>\<open>FilterList.passing\<close>.\<close>

definition FilterList_total :: "('e, 'w) item list \<Rightarrow> error + int" where
  "FilterList_total self = (if length self > 0 then item_total (self ! 0) else Inr 0)"

definition FilterList_passing :: "('e, 'w) item list \<Rightarrow> error + int" where
  "FilterList_passing self =
     (if length self > 0 then item_passing (self ! (length self - 1)) else Inr 0)"

subsection \<open>EventFilterList\<close>

text \<open>
  \<^verbatim>\<open>EventFilterList.__call__(self, event)\<close>: the loop returns at the first filter whose
  call is false. The filters called so far are updated in the list.
\<close>

fun EventFilterList_call ::
  "('e, 'w) EventFilter list \<Rightarrow> 'e \<Rightarrow> 'w \<Rightarrow> error + ('w \<times> ('e, 'w) EventFilter list \<times> bool)" where
  "EventFilterList_call [] event w = Inr (w, [], True)"
| "EventFilterList_call (f # fs) event w =
     (case EventFilter_call f event w of
        Inl err \<Rightarrow> Inl err
      | Inr (w', f', ok) \<Rightarrow>
          if \<not> ok then Inr (w', f' # fs, False)
          else (case EventFilterList_call fs event w' of
                  Inl err \<Rightarrow> Inl err
                | Inr (w'', fs', r) \<Rightarrow> Inr (w'', f' # fs', r)))"

subsection \<open>Sequences of operations\<close>

text \<open>A call of \<^verbatim>\<open>passed(event)\<close> or of \<^verbatim>\<open>failed(event)\<close>, and a sequence of them.\<close>

datatype 'e outcome = Pass 'e | Fail 'e

fun is_pass :: "'e outcome \<Rightarrow> bool" where
  "is_pass (Pass _) = True"
| "is_pass (Fail _) = False"

fun record_calls ::
  "('e, 'w, 'z) Filter_scheme \<Rightarrow> 'e outcome list \<Rightarrow> error + ('e, 'w, 'z) Filter_scheme" where
  "record_calls f [] = Inr f"
| "record_calls f (Pass event # cs) =
     (case Filter_passed f event of Inl err \<Rightarrow> Inl err | Inr f' \<Rightarrow> record_calls f' cs)"
| "record_calls f (Fail event # cs) =
     (case Filter_failed f event of Inl err \<Rightarrow> Inl err | Inr f' \<Rightarrow> record_calls f' cs)"

text \<open>An object of one of the three classes, and its attributes of the base class.\<close>

datatype ('e, 'w, 'o) obj =
    PlainObj "('e, 'w) Filter"
  | EventObj "('e, 'w) EventFilter"
  | ObjectObj "('e, 'w, 'o) ObjectFilter"

fun base :: "('e, 'w, 'o) obj \<Rightarrow> ('e, 'w) Filter" where
  "base (PlainObj f) = f"
| "base (EventObj f) = Filter.truncate f"
| "base (ObjectObj f) = Filter.truncate f"

fun obj_passed :: "('e, 'w, 'o) obj \<Rightarrow> 'e \<Rightarrow> error + ('e, 'w, 'o) obj" where
  "obj_passed (PlainObj f) event = map_sum (\<lambda>err. err) PlainObj (Filter_passed f event)"
| "obj_passed (EventObj f) event = map_sum (\<lambda>err. err) EventObj (Filter_passed f event)"
| "obj_passed (ObjectObj f) event = map_sum (\<lambda>err. err) ObjectObj (Filter_passed f event)"

fun obj_failed :: "('e, 'w, 'o) obj \<Rightarrow> 'e \<Rightarrow> error + ('e, 'w, 'o) obj" where
  "obj_failed (PlainObj f) event = map_sum (\<lambda>err. err) PlainObj (Filter_failed f event)"
| "obj_failed (EventObj f) event = map_sum (\<lambda>err. err) EventObj (Filter_failed f event)"
| "obj_failed (ObjectObj f) event = map_sum (\<lambda>err. err) ObjectObj (Filter_failed f event)"

text \<open>
  \<^verbatim>\<open>x(event)\<close> and \<^verbatim>\<open>x(event, collection)\<close>. Only an \<^verbatim>\<open>EventFilter\<close> has the first
  \<^verbatim>\<open>__call__\<close> and only an \<^verbatim>\<open>ObjectFilter\<close> the second; Python raises \<^verbatim>\<open>TypeError\<close>
  otherwise.
\<close>

fun obj_call_event :: "('e, 'w, 'o) obj \<Rightarrow> 'e \<Rightarrow> 'w \<Rightarrow> error + ('e, 'w, 'o) obj" where
  "obj_call_event (EventObj f) event w =
     (case EventFilter_call f event w of
        Inl err \<Rightarrow> Inl err | Inr (w', f', ok) \<Rightarrow> Inr (EventObj f'))"
| "obj_call_event _ event w = Inl TypeError"

fun obj_call_object :: "('e, 'w, 'o) obj \<Rightarrow> 'e \<Rightarrow> 'o list \<Rightarrow> error + ('e, 'w, 'o) obj" where
  "obj_call_object (ObjectObj f) event collection =
     Inr (ObjectObj (fst (ObjectFilter_call f event collection)))"
| "obj_call_object _ event collection = Inl TypeError"

text \<open>
  How a filter came to be: constructed, or an earlier filter after one more operation, or
  the sum of two earlier filters.
\<close>

datatype ('e, 'w, 'o) history =
    New_Filter string "('w \<Rightarrow> 'w) list option" bool "string option"
      "(string, 'e \<Rightarrow> pyfloat) dict option"
  | New_EventFilter string "'e \<Rightarrow> bool option" "('w \<Rightarrow> 'w) list option" bool "string option"
      "(string, 'e \<Rightarrow> pyfloat) dict option"
  | New_ObjectFilter string "'e \<Rightarrow> 'o list \<Rightarrow> 'o list" bool "('w \<Rightarrow> 'w) list option" bool
      "string option" "(string, 'e \<Rightarrow> pyfloat) dict option"
  | Then_passed "('e, 'w, 'o) history" 'e
  | Then_failed "('e, 'w, 'o) history" 'e
  | Then_call_event "('e, 'w, 'o) history" 'e 'w
  | Then_call_object "('e, 'w, 'o) history" 'e "'o list"
  | Added "('e, 'w, 'o) history" "('e, 'w, 'o) history"

fun replay :: "('e, 'w, 'o) history \<Rightarrow> error + ('e, 'w, 'o) obj" where
  "replay (New_Filter cls h p n c) = Inr (PlainObj (Filter_init cls h p n c))"
| "replay (New_EventFilter cls pm h p n c) = Inr (EventObj (EventFilter_init cls pm h p n c))"
| "replay (New_ObjectFilter cls fm ce h p n c) =
     Inr (ObjectObj (ObjectFilter_init cls fm ce h p n c))"
| "replay (Then_passed hist event) =
     (case replay hist of Inl err \<Rightarrow> Inl err | Inr x \<Rightarrow> obj_passed x event)"
| "replay (Then_failed hist event) =
     (case replay hist of Inl err \<Rightarrow> Inl err | Inr x \<Rightarrow> obj_failed x event)"
| "replay (Then_call_event hist event w) =
     (case replay hist of Inl err \<Rightarrow> Inl err | Inr x \<Rightarrow> obj_call_event x event w)"
| "replay (Then_call_object hist event collection) =
     (case replay hist of Inl err \<Rightarrow> Inl err | Inr x \<Rightarrow> obj_call_object x event collection)"
| "replay (Added hl hr) =
     (case replay hl of Inl err \<Rightarrow> Inl err | Inr l \<Rightarrow>
      case replay hr of Inl err \<Rightarrow> Inl err | Inr r \<Rightarrow>
        map_sum (\<lambda>err. err) PlainObj (Filter_add (base l) (base r)))"

subsection \<open>Predicates of the properties\<close>

text \<open>
  The invariant of the counters: \<^verbatim>\<open>passing <= total\<close>, and for every label of
  \<^verbatim>\<open>count_funcs\<close> both tallies exist with
  \<^verbatim>\<open>count_funcs_passing[k] <= count_funcs_total[k]\<close>.
\<close>

definition ordered_at :: "(string, pyfloat) dict \<Rightarrow> (string, pyfloat) dict \<Rightarrow> string \<Rightarrow> bool" where
  "ordered_at pas tot k =
     (case map_of pas k of
        None \<Rightarrow> False
      | Some p \<Rightarrow> (case map_of tot k of None \<Rightarrow> False | Some t \<Rightarrow> p \<le> t))"

definition counters_ordered :: "('e, 'w, 'z) Filter_scheme \<Rightarrow> bool" where
  "counters_ordered f =
     (passing f \<le> total_cnt f \<and>
      list_all (ordered_at (count_funcs_passing f) (count_funcs_total f))
        (map fst (count_funcs f)))"

text \<open>Every label of \<^verbatim>\<open>count_funcs\<close> is a key of both tallies.\<close>

definition tallies_registered :: "('e, 'w, 'z) Filter_scheme \<Rightarrow> bool" where
  "tallies_registered f =
     list_all (\<lambda>k. map_of (count_funcs_total f) k \<noteq> None \<and>
                   map_of (count_funcs_passing f) k \<noteq> None)
       (map fst (count_funcs f))"

text \<open>
  Every weight \<open>w\<close> that a count function returns satisfies \<^verbatim>\<open>0 <= w\<close>: it is neither
  negative nor a NaN.
\<close>

definition weights_nonneg :: "(string, 'e \<Rightarrow> pyfloat) dict option \<Rightarrow> bool" where
  "weights_nonneg c =
     (case c of None \<Rightarrow> True | Some cfs \<Rightarrow> list_all (\<lambda>kf. \<forall>event. 0 \<le> snd kf event) cfs)"

text \<open>
  \<^verbatim>\<open>filtered\<close> never returns more objects than it was given, as every method that
  returns a part of its collection does.
\<close>

definition shrinking :: "('e \<Rightarrow> 'o list \<Rightarrow> 'o list) \<Rightarrow> bool" where
  "shrinking fm = (\<forall>event collection. length (fm event collection) \<le> length collection)"

text \<open>The count functions of every filter constructed in a history have such weights.\<close>

fun weights_ok :: "('e, 'w, 'o) history \<Rightarrow> bool" where
  "weights_ok (New_Filter cls h p n c) = weights_nonneg c"
| "weights_ok (New_EventFilter cls pm h p n c) = weights_nonneg c"
| "weights_ok (New_ObjectFilter cls fm ce h p n c) = weights_nonneg c"
| "weights_ok (Then_passed hist event) = weights_ok hist"
| "weights_ok (Then_failed hist event) = weights_ok hist"
| "weights_ok (Then_call_event hist event w) = weights_ok hist"
| "weights_ok (Then_call_object hist event collection) = weights_ok hist"
| "weights_ok (Added hl hr) = (weights_ok hl \<and> weights_ok hr)"

text \<open>The \<^verbatim>\<open>filtered\<close> of every object filter constructed in a history is such a method.\<close>

fun filtered_ok :: "('e, 'w, 'o) history \<Rightarrow> bool" where
  "filtered_ok (New_Filter cls h p n c) = True"
| "filtered_ok (New_EventFilter cls pm h p n c) = True"
| "filtered_ok (New_ObjectFilter cls fm ce h p n c) = shrinking fm"
| "filtered_ok (Then_passed hist event) = filtered_ok hist"
| "filtered_ok (Then_failed hist event) = filtered_ok hist"
| "filtered_ok (Then_call_event hist event w) = filtered_ok hist"
| "filtered_ok (Then_call_object hist event collection) = filtered_ok hist"
| "filtered_ok (Added hl hr) = (filtered_ok hl \<and> filtered_ok hr)"

text \<open>
  An object with \<^verbatim>\<open>passing <= total\<close> whose \<^verbatim>\<open>filtered\<close>, if it has one, never adds
  objects.
\<close>

fun counts_sound :: "('e, 'w, 'o) obj \<Rightarrow> bool" where
  "counts_sound (PlainObj f) = (passing f \<le> total_cnt f)"
| "counts_sound (EventObj f) = (passing f \<le> total_cnt f)"
| "counts_sound (ObjectObj f) = (passing f \<le> total_cnt f \<and> shrinking (filtered f))"

text \<open>
  A filter whose count functions have weights as above and whose tallies satisfy
  \<^verbatim>\<open>0 <= count_funcs_passing[k] <= count_funcs_total[k]\<close> at every label.
\<close>

definition tally_sound :: "(string, pyfloat) dict \<Rightarrow> (string, pyfloat) dict \<Rightarrow> string \<Rightarrow> bool" where
  "tally_sound pas tot k =
     (case map_of pas k of
        None \<Rightarrow> False
      | Some p \<Rightarrow> (case map_of tot k of None \<Rightarrow> False | Some t \<Rightarrow> 0 \<le> p \<and> p \<le> t))"

definition tallies_sound :: "('e, 'w, 'z) Filter_scheme \<Rightarrow> bool" where
  "tallies_sound f =
     (weights_nonneg (Some (count_funcs f)) \<and>
      list_all (tally_sound (count_funcs_passing f) (count_funcs_total f))
        (map fst (count_funcs f)))"

text \<open>An \<^verbatim>\<open>EventFilter\<close> whose call on the event returns true.\<close>

definition accepts :: "('e, 'w, 'z) EventFilter_scheme \<Rightarrow> 'e \<Rightarrow> bool" where
  "accepts f event = (passthrough f \<or> passes f event = Some True)"

text \<open>
  Two elements that \<^verbatim>\<open>merge\<close> can add: both are filters or complete state mappings, with
  one name, and every key of the left \<^verbatim>\<open>details\<close> is a key of the right one.
\<close>

definition addable :: "('e, 'w) item \<Rightarrow> ('e, 'w) item \<Rightarrow> bool" where
  "addable a b =
     (case upgrade a of Inl _ \<Rightarrow> False | Inr f \<Rightarrow>
      case upgrade b of Inl _ \<Rightarrow> False | Inr g \<Rightarrow>
        name f = name g \<and> list_all (\<lambda>k. map_of (details g) k \<noteq> None) (map fst (details f)))"

text \<open>Two elements with one name, as far as their names can be read.\<close>

definition same_named :: "('e, 'w) item \<Rightarrow> ('e, 'w) item \<Rightarrow> bool" where
  "same_named a b =
     (case upgrade a of Inl _ \<Rightarrow> False | Inr f \<Rightarrow>
      case upgrade b of Inl _ \<Rightarrow> False | Inr g \<Rightarrow> name f = name g)"

subsection \<open>Example filters\<close>

text \<open>Filter \<open>A\<close> after a first run (10 seen, 7 passing) and after a second run (5 seen, 3 passing).\<close>

definition run1_A :: "(unit, nat) Filter" where
  "run1_A = (Filter_init ''Filter'' None False (Some ''A'') None)\<lparr> total_cnt := 10, passing := 7 \<rparr>"

definition run2_A :: "(unit, nat) Filter" where
  "run2_A = (Filter_init ''Filter'' None False (Some ''A'') None)\<lparr> total_cnt := 5, passing := 3 \<rparr>"

definition cut1 :: "(unit, nat) Filter" where
  "cut1 = Filter_init ''Filter'' None False (Some ''cut1'') None"

definition cut2 :: "(unit, nat) Filter" where
  "cut2 = Filter_init ''Filter'' None False (Some ''cut2'') None"

text \<open>Filters named \<open>A\<close> whose \<^verbatim>\<open>details\<close> a derived class has filled.\<close>

definition A_with_x :: "(unit, nat) Filter" where
  "A_with_x = run1_A\<lparr> details := [(''x'', Fin 1)] \<rparr>"

definition A_with_x' :: "(unit, nat) Filter" where
  "A_with_x' = run2_A\<lparr> details := [(''x'', Fin 2)] \<rparr>"

definition A_with_xy :: "(unit, nat) Filter" where
  "A_with_xy = run2_A\<lparr> details := [(''x'', Fin 2), (''y'', Fin 5)] \<rparr>"

text \<open>A filter with one count function, of constant weight 2.\<close>

definition weighted :: "(unit, nat) Filter" where
  "weighted = Filter_init ''Filter'' None False (Some ''A'') (Some [(''w'', \<lambda>_. Fin 2)])"

text \<open>
  An event filter over integers that abstains on 0, accepts a positive event and rejects
  a negative one; its hook counts its runs in the state outside, a natural number.
\<close>

definition positive_cut :: "(int, nat) EventFilter" where
  "positive_cut =
     EventFilter_init ''PositiveCut'' (\<lambda>event. if event = 0 then None else Some (0 < event))
       (Some [Suc]) False None None"

text \<open>Three event filters: \<open>A\<close> and \<open>C\<close> accept every event, \<open>B\<close> rejects every event.\<close>

definition stage_A :: "(int, nat) EventFilter" where
  "stage_A = EventFilter_init ''A'' (\<lambda>_. Some True) (Some [Suc]) False None None"

definition stage_B :: "(int, nat) EventFilter" where
  "stage_B = EventFilter_init ''B'' (\<lambda>_. Some False) (Some [Suc]) False None None"

definition stage_C :: "(int, nat) EventFilter" where
  "stage_C = EventFilter_init ''C'' (\<lambda>_. Some True) (Some [Suc]) False None None"

text \<open>An object filter that keeps the even numbers of a collection.\<close>

definition keep_evens :: "bool \<Rightarrow> (unit, nat, int) ObjectFilter" where
  "keep_evens count_events_arg =
     ObjectFilter_init ''KeepEvens'' (\<lambda>_ collection. filter even collection) count_events_arg
       None False None None"

text \<open>A filter whose count function returns the weight -1, after one \<^verbatim>\<open>failed\<close> call.\<close>

definition negative_weight_failed :: "(unit, nat, int) history" where
  "negative_weight_failed =
     Then_failed (New_Filter ''Filter'' None False None (Some [(''w'', \<lambda>_. Fin (- 1))])) ()"

text \<open>A filter whose count function returns a NaN, after one \<^verbatim>\<open>passed\<close> call.\<close>

definition nan_weight_passed :: "(unit, nat, int) history" where
  "nan_weight_passed =
     Then_passed (New_Filter ''Filter'' None False None (Some [(''w'', \<lambda>_. NaN)])) ()"

text \<open>The objects that these two histories give.\<close>

definition negative_weight_result :: "(unit, nat) Filter" where
  "negative_weight_result =
     \<lparr> total_cnt = 1, passing = 0,
       count_funcs_total = [(''w'', Fin (- 1))], count_funcs_passing = [(''w'', Fin 0)],
       count_funcs = [(''w'', \<lambda>_. Fin (- 1))], details = [], name = ''w'',
       hooks = None, passthrough = False, was_passed = False \<rparr>"

definition nan_weight_result :: "(unit, nat) Filter" where
  "nan_weight_result =
     \<lparr> total_cnt = 1, passing = 1,
       count_funcs_total = [(''w'', NaN)], count_funcs_passing = [(''w'', NaN)],
       count_funcs = [(''w'', \<lambda>_. NaN)], details = [], name = ''w'',
       hooks = None, passthrough = False, was_passed = True \<rparr>"

text \<open>
  An event filter with a count function of weight 2 that is called on 3 and on - 3; an
  object filter that is called on four numbers and then recorded as passed; their sum.
\<close>

definition sample_event_history :: "(int, nat, int) history" where
  "sample_event_history =
     Then_call_event
       (Then_call_event
          (New_EventFilter ''Cut'' (\<lambda>event. Some (0 < event)) None False (Some ''cut'')
             (Some [(''cut'', \<lambda>_. Fin 2)]))
          3 0)
       (- 3) 0"

definition sample_object_history :: "(int, nat, int) history" where
  "sample_object_history =
     Then_passed
       (Then_call_object
          (New_ObjectFilter ''Evens'' (\<lambda>_ collection. filter even collection) False None False
             (Some ''cut'') None)
          0 [1, 2, 3, 4])
       0"

definition sample_history :: "(int, nat, int) history" where
  "sample_history = Added sample_event_history sample_object_history"

text \<open>
  The cut-flows of two runs over the stages \<open>A\<close>, \<open>B\<close> and \<open>C\<close>, some of the elements as
  filters and some as state mappings.
\<close>

definition counted :: "string \<Rightarrow> int \<Rightarrow> int \<Rightarrow> (unit, nat) Filter" where
  "counted nm t p =
     (Filter_init ''Filter'' None False (Some nm) None)\<lparr> total_cnt := t, passing := p \<rparr>"

definition flow_run1 :: "(unit, nat) item list" where
  "flow_run1 =
     [ItemFilter (counted ''A'' 10 7), ItemDict (Filter_getstate (counted ''B'' 7 5)),
      ItemFilter (counted ''C'' 5 2)]"

definition flow_run2 :: "(unit, nat) item list" where
  "flow_run2 =
     [ItemDict (Filter_getstate (counted ''A'' 5 3)), ItemFilter (counted ''B'' 3 3),
      ItemDict (Filter_getstate (counted ''C'' 3 1))]"

section \<open>Properties\<close>

subsection \<open>The example filters\<close>

lemma example_names:
  "name run1_A = ''A''" "name run2_A = ''A''" "name cut1 = ''cut1''" "name cut2 = ''cut2''"
  "name A_with_x = ''A''" "name A_with_x' = ''A''" "name A_with_xy = ''A''"
  by (simp_all add: run1_A_def run2_A_def cut1_def cut2_def A_with_x_def A_with_x'_def
        A_with_xy_def Filter_init_def)

lemma example_details:
  "details run1_A = []" "details run2_A = []" "details cut1 = []" "details cut2 = []"
  "details A_with_x = [(''x'', Fin 1)]" "details A_with_x' = [(''x'', Fin 2)]"
  "details A_with_xy = [(''x'', Fin 2), (''y'', Fin 5)]"
  by (simp_all add: run1_A_def run2_A_def cut1_def cut2_def A_with_x_def A_with_x'_def
        A_with_xy_def Filter_init_def)

lemma example_counters:
  "total_cnt run1_A = 10" "passing run1_A = 7" "total_cnt run2_A = 5" "passing run2_A = 3"
  by (simp_all add: run1_A_def run2_A_def)

lemma positive_cut_fields:
  "\<not> passthrough positive_cut" "hooks positive_cut = Some [Suc]"
  "passes positive_cut = (\<lambda>event. if event = 0 then None else Some (0 < event))"
  "count_funcs positive_cut = []" "total_cnt positive_cut = 0" "passing positive_cut = 0"
  by (simp_all add: positive_cut_def EventFilter_init_def Filter_init_def Filter.defs EventFilter.defs)

lemma keep_evens_fields:
  "\<not> passthrough (keep_evens ce)" "count_events (keep_evens ce) = ce"
  "filtered (keep_evens ce) = (\<lambda>_ collection. filter even collection)"
  "total_cnt (keep_evens ce) = 0" "passing (keep_evens ce) = 0"
  by (simp_all add: keep_evens_def ObjectFilter_init_def Filter_init_def Filter.defs ObjectFilter.defs)

subsection \<open>Dictionaries and \<open>Filter.add\<close>\<close>

lemma map_of_dict_of_aux:
  "map_of (fold (\<lambda>(k, v). AList.update k v) ps d) = map_of d ++ map_of (rev ps)"
  by (induction ps arbitrary: d) (auto simp: AList.update_conv' map_add_upd_left fun_eq_iff map_add_def split: option.splits)

lemma map_of_dict_of: "map_of (dict_of ps) = map_of (rev ps)"
  by (simp add: dict_of_def map_of_dict_of_aux)

lemma keys_dict_of: "fst ` set (dict_of ps) = fst ` set ps"
proof -
  have "dom (map_of (dict_of ps)) = dom (map_of (rev ps))" by (simp add: map_of_dict_of)
  then show ?thesis by (simp add: dom_map_of_conv_image_fst)
qed

lemma add_details_ok:
  "set ks \<subseteq> fst ` set l \<Longrightarrow> set ks \<subseteq> fst ` set r \<Longrightarrow>
   add_details ks l r = Inr (map (\<lambda>k. (k, the (map_of l k) + the (map_of r k))) ks)"
proof (induction ks)
  case Nil
  then show ?case by simp
next
  case (Cons k ks)
  from Cons.prems obtain a b where "map_of l k = Some a" "map_of r k = Some b"
    by (metis (no_types, lifting) domD dom_map_of_conv_image_fst list.set_intros(1) subsetD)
  with Cons show ?case by simp
qed

lemma add_details_err:
  "set ks \<subseteq> fst ` set l \<Longrightarrow> \<not> set ks \<subseteq> fst ` set r \<Longrightarrow> add_details ks l r = Inl KeyError"
proof (induction ks)
  case Nil
  then show ?case by simp
next
  case (Cons k ks)
  from Cons.prems obtain a where a: "map_of l k = Some a"
    by (metis (no_types, lifting) domD dom_map_of_conv_image_fst list.set_intros(1) subsetD)
  show ?case
  proof (cases "map_of r k")
    case None
    with a show ?thesis by simp
  next
    case (Some b)
    then have "k \<in> fst ` set r" by (metis domI dom_map_of_conv_image_fst)
    with Cons.prems have "\<not> set ks \<subseteq> fst ` set r" by auto
    with Cons have "add_details ks l r = Inl KeyError" by auto
    with a Some show ?thesis by simp
  qed
qed

lemma map_of_sums:
  "k \<in> set ks \<Longrightarrow> map_of (rev (map (\<lambda>k. (k, g k)) ks)) k = Some (g k)"
  by (simp add: rev_map map_of_map_restrict restrict_map_def)


lemma Filter_add_ok:
  assumes "name l = name r" "fst ` set (details l) \<subseteq> fst ` set (details r)"
  shows "Filter_add l r =
     Inr ((Filter_init ''Filter'' None False None None)
            \<lparr> name := name l, total_cnt := total_cnt l + total_cnt r,
              passing := passing l + passing r,
              details := dict_of (map (\<lambda>k. (k, the (map_of (details l) k) + the (map_of (details r) k)))
                                    (map fst (details l))) \<rparr>)"
  using assms add_details_ok [of "map fst (details l)" "details l" "details r"]
  by (simp add: Filter_add_def)

lemma Filter_add_KeyError:
  assumes "name l = name r" "\<not> fst ` set (details l) \<subseteq> fst ` set (details r)"
  shows "Filter_add l r = Inl KeyError"
  using assms add_details_err [of "map fst (details l)" "details l" "details r"]
  by (simp add: Filter_add_def)

lemma Filter_add_ValueError: "name l \<noteq> name r \<Longrightarrow> Filter_add l r = Inl ValueError"
  by (simp add: Filter_add_def)

lemma Filter_add_Inr_iff:
  "Filter_add l r = Inr f \<longleftrightarrow>
     name l = name r \<and> fst ` set (details l) \<subseteq> fst ` set (details r) \<and>
     f = (Filter_init ''Filter'' None False None None)
            \<lparr> name := name l, total_cnt := total_cnt l + total_cnt r,
              passing := passing l + passing r,
              details := dict_of (map (\<lambda>k. (k, the (map_of (details l) k) + the (map_of (details r) k)))
                                    (map fst (details l))) \<rparr>"
proof (cases "name l = name r")
  case False
  then show ?thesis by (simp add: Filter_add_ValueError)
next
  case True
  show ?thesis
  proof (cases "fst ` set (details l) \<subseteq> fst ` set (details r)")
    case True
    with \<open>name l = name r\<close> show ?thesis by (simp add: Filter_add_ok) blast
  next
    case False
    with \<open>name l = name r\<close> show ?thesis by (simp add: Filter_add_KeyError)
  qed
qed

lemma Filter_init_default_tallies:
  "count_funcs (Filter_init cls h p n None) = [] \<and>
   count_funcs_total (Filter_init cls h p n None) = [] \<and>
   count_funcs_passing (Filter_init cls h p n None) = []"
  by (simp add: Filter_init_def)

subsection \<open>Counting loops\<close>

lemma init_loop_maps:
  "init_loop ks nm tot pas = (nm', tot', pas') \<Longrightarrow>
   map_of tot' = (\<lambda>k. if k \<in> set ks then Some 0 else map_of tot k) \<and>
   map_of pas' = (\<lambda>k. if k \<in> set ks then Some 0 else map_of pas k)"
proof (induction ks arbitrary: nm tot pas)
  case Nil
  then show ?case by simp
next
  case (Cons k ks)
  from Cons.prems have
    "init_loop ks (Some k) (AList.update k 0 tot) (AList.update k 0 pas) = (nm', tot', pas')"
    by simp
  from Cons.IH [OF this] show ?case
    by (auto simp: AList.update_conv' fun_eq_iff)
qed

lemma init_loop_name:
  "fst (init_loop ks nm tot pas) = (if ks = [] then nm else Some (last ks))"
  by (induction ks arbitrary: nm tot pas) auto

lemma passed_loop_total:
  assumes "\<forall>k \<in> fst ` set cfs. map_of tot k \<noteq> None \<and> map_of pas k \<noteq> None"
  shows "\<exists>tot' pas'. passed_loop cfs e tot pas = Inr (tot', pas') \<and>
           dom (map_of tot') = dom (map_of tot) \<and> dom (map_of pas') = dom (map_of pas)"
  using assms
proof (induction cfs arbitrary: tot pas)
  case Nil
  then show ?case by simp
next
  case (Cons kf cfs)
  obtain nm func where kf: "kf = (nm, func)" by (cases kf)
  from Cons.prems kf obtain t p where tp: "map_of tot nm = Some t" "map_of pas nm = Some p"
    by auto
  let ?tot = "AList.update nm (t + func e) tot"
  let ?pas = "AList.update nm (p + func e) pas"
  have d: "dom (map_of ?tot) = dom (map_of tot)" "dom (map_of ?pas) = dom (map_of pas)"
    using tp by (auto simp: AList.update_conv')
  have "\<forall>k \<in> fst ` set cfs. map_of ?tot k \<noteq> None \<and> map_of ?pas k \<noteq> None"
    using Cons.prems by (auto simp: AList.update_conv')
  from Cons.IH [OF this] d kf tp show ?case by (simp add: Let_def)
qed

lemma failed_loop_total:
  assumes "\<forall>k \<in> fst ` set cfs. map_of tot k \<noteq> None"
  shows "\<exists>tot'. failed_loop cfs e tot = Inr tot' \<and> dom (map_of tot') = dom (map_of tot)"
  using assms
proof (induction cfs arbitrary: tot)
  case Nil
  then show ?case by simp
next
  case (Cons kf cfs)
  obtain nm func where kf: "kf = (nm, func)" by (cases kf)
  from Cons.prems kf obtain t where tp: "map_of tot nm = Some t"
    by auto
  let ?tot = "AList.update nm (t + func e) tot"
  have d: "dom (map_of ?tot) = dom (map_of tot)"
    using tp by (auto simp: AList.update_conv')
  have "\<forall>k \<in> fst ` set cfs. map_of ?tot k \<noteq> None"
    using Cons.prems by (auto simp: AList.update_conv')
  from Cons.IH [OF this] d kf tp show ?case by (simp add: Let_def)
qed

lemma tallies_registered_iff:
  "tallies_registered f \<longleftrightarrow>
     fst ` set (count_funcs f) \<subseteq> dom (map_of (count_funcs_total f)) \<and>
     fst ` set (count_funcs f) \<subseteq> dom (map_of (count_funcs_passing f))"
  by (auto simp: tallies_registered_def list_all_iff)

lemma dom_eq_not_None: "dom m' = dom m \<Longrightarrow> (m' k \<noteq> None) = (m k \<noteq> None)"
  by (auto simp: dom_def)

lemma Filter_passed_registered:
  assumes "tallies_registered f"
  shows "\<exists>f'. Filter_passed f e = Inr f' \<and> total_cnt f' = total_cnt f + 1 \<and>
           passing f' = passing f + 1 \<and> tallies_registered f'"
proof -
  from assms have "\<forall>k \<in> fst ` set (count_funcs f).
        map_of (count_funcs_total f) k \<noteq> None \<and> map_of (count_funcs_passing f) k \<noteq> None"
    by (auto simp: tallies_registered_iff)
  from passed_loop_total [OF this, of e] obtain tot' pas' where
    l: "passed_loop (count_funcs f) e (count_funcs_total f) (count_funcs_passing f) = Inr (tot', pas')"
    and d: "dom (map_of tot') = dom (map_of (count_funcs_total f))"
           "dom (map_of pas') = dom (map_of (count_funcs_passing f))"
    by blast
  from assms d have "tallies_registered (f\<lparr> total_cnt := total_cnt f + 1, passing := passing f + 1,
                     count_funcs_total := tot', count_funcs_passing := pas',
                     was_passed := True \<rparr>)"
    by (simp add: tallies_registered_iff)
  with l show ?thesis by (simp add: Filter_passed_def)
qed

lemma Filter_failed_registered:
  assumes "tallies_registered f"
  shows "\<exists>f'. Filter_failed f e = Inr f' \<and> total_cnt f' = total_cnt f + 1 \<and>
           passing f' = passing f \<and> tallies_registered f'"
proof -
  from assms have "\<forall>k \<in> fst ` set (count_funcs f). map_of (count_funcs_total f) k \<noteq> None"
    by (auto simp: tallies_registered_iff)
  from failed_loop_total [OF this, of e] obtain tot' where
    l: "failed_loop (count_funcs f) e (count_funcs_total f) = Inr tot'"
    and d: "dom (map_of tot') = dom (map_of (count_funcs_total f))"
    by blast
  from assms d have "tallies_registered (f\<lparr> total_cnt := total_cnt f + 1,
                     count_funcs_total := tot', was_passed := False \<rparr>)"
    by (simp add: tallies_registered_iff)
  with l show ?thesis by (simp add: Filter_failed_def)
qed

lemma Filter_init_fields:
  "total_cnt (Filter_init cls h p n c) = 0"
  "passing (Filter_init cls h p n c) = 0"
  "count_funcs (Filter_init cls h p n c) = (case c of None \<Rightarrow> [] | Some cfs \<Rightarrow> cfs)"
  "details (Filter_init cls h p n c) = []"
  "hooks (Filter_init cls h p n c) = h"
  "passthrough (Filter_init cls h p n c) = p"
  "was_passed (Filter_init cls h p n c) = False"
  by (simp_all add: Filter_init_def Let_def split: prod.splits)

lemma init_loop_maps_fresh:
  assumes "init_loop ks nm [] [] = (nm', tot', pas')"
  shows "map_of tot' k = (if k \<in> set ks then Some 0 else None)"
    and "map_of pas' k = (if k \<in> set ks then Some 0 else None)"
  using init_loop_maps [OF assms] by simp_all

lemma Filter_init_tallies:
  "map_of (count_funcs_total (Filter_init cls h p n c)) k =
     (if k \<in> fst ` set (count_funcs (Filter_init cls h p n c)) then Some 0 else None)"
  "map_of (count_funcs_passing (Filter_init cls h p n c)) k =
     (if k \<in> fst ` set (count_funcs (Filter_init cls h p n c)) then Some 0 else None)"
proof -
  define cfs where "cfs = (case c of None \<Rightarrow> [] | Some cfs \<Rightarrow> cfs)"
  obtain nm' tot' pas' where l: "init_loop (map fst cfs) n [] [] = (nm', tot', pas')"
    by (cases "init_loop (map fst cfs) n [] []") auto
  have f: "Filter_init cls h p n c =
          \<lparr> total_cnt = 0, passing = 0, count_funcs_total = tot', count_funcs_passing = pas',
            count_funcs = cfs, details = [],
            name = (case nm' of None \<Rightarrow> cls | Some n \<Rightarrow> n),
            hooks = h, passthrough = p, was_passed = False \<rparr>"
    using l by (simp add: Filter_init_def Let_def cfs_def)
  show "map_of (count_funcs_total (Filter_init cls h p n c)) k =
     (if k \<in> fst ` set (count_funcs (Filter_init cls h p n c)) then Some 0 else None)"
    unfolding f using init_loop_maps_fresh(1) [OF l, of k] by simp
  show "map_of (count_funcs_passing (Filter_init cls h p n c)) k =
     (if k \<in> fst ` set (count_funcs (Filter_init cls h p n c)) then Some 0 else None)"
    unfolding f using init_loop_maps_fresh(2) [OF l, of k] by simp
qed

lemma Filter_init_registered: "tallies_registered (Filter_init cls h p n c)"
  unfolding tallies_registered_iff
proof (intro conjI subsetI)
  fix k assume "k \<in> fst ` set (count_funcs (Filter_init cls h p n c))"
  then show "k \<in> dom (map_of (count_funcs_total (Filter_init cls h p n c)))"
    and "k \<in> dom (map_of (count_funcs_passing (Filter_init cls h p n c)))"
    by (simp_all add: dom_def Filter_init_tallies)
qed

lemma record_calls_counts:
  assumes "tallies_registered f"
  shows "\<exists>f'. record_calls f calls = Inr f' \<and>
           total_cnt f' = total_cnt f + int (length calls) \<and>
           passing f' = passing f + int (length (filter is_pass calls)) \<and>
           tallies_registered f'"
  using assms
proof (induction calls arbitrary: f)
  case Nil
  then show ?case by simp
next
  case (Cons c calls)
  show ?case
  proof (cases c)
    case (Pass e)
    from Filter_passed_registered [OF Cons.prems, of e] obtain f1 where
      f1: "Filter_passed f e = Inr f1" "total_cnt f1 = total_cnt f + 1"
          "passing f1 = passing f + 1" "tallies_registered f1"
      by blast
    from Cons.IH [OF f1(4)] f1 Pass show ?thesis by auto
  next
    case (Fail e)
    from Filter_failed_registered [OF Cons.prems, of e] obtain f1 where
      f1: "Filter_failed f e = Inr f1" "total_cnt f1 = total_cnt f + 1"
          "passing f1 = passing f" "tallies_registered f1"
      by blast
    from Cons.IH [OF f1(4)] f1 Fail show ?thesis by auto
  qed
qed

subsection \<open>Serialization\<close>

text \<open>
  C2. Restoring any filter \<open>g\<close> from the state mapping of \<open>f\<close> succeeds and gives a filter
  whose \<^verbatim>\<open>name\<close>, \<^verbatim>\<open>total\<close>, \<^verbatim>\<open>passing\<close>, \<^verbatim>\<open>details\<close>, \<^verbatim>\<open>count_funcs_total\<close> and
  \<^verbatim>\<open>count_funcs_passing\<close> are those of \<open>f\<close>. The mapping has exactly the six keys of these
  attributes: the callables of \<^verbatim>\<open>count_funcs\<close> are not in it, and the restored filter keeps
  the \<^verbatim>\<open>count_funcs\<close> of \<open>g\<close>.
\<close>

theorem getstate_setstate_roundtrip:
  "(\<exists>f'. Filter_setstate g (Filter_getstate f) = Inr f' \<and>
         name f' = name f \<and> total_cnt f' = total_cnt f \<and> passing f' = passing f \<and>
         details f' = details f \<and> count_funcs_total f' = count_funcs_total f \<and>
         count_funcs_passing f' = count_funcs_passing f \<and> count_funcs f' = count_funcs g) \<and>
   map fst (Filter_getstate f) =
     [''name'', ''total'', ''passing'', ''details'', ''count_funcs_total'', ''count_funcs_passing'']"
  by (simp add: Filter_setstate_def Filter_getstate_def state_str_def state_int_def state_dict_def)

text \<open>Filter \<open>A\<close> of the first run, restored into another filter.\<close>

theorem getstate_setstate_roundtrip_witness:
  "\<exists>f'. Filter_setstate cut1 (Filter_getstate run1_A) = Inr f' \<and>
         name f' = ''A'' \<and> total_cnt f' = 10 \<and> passing f' = 7 \<and> details f' = []"
  using getstate_setstate_roundtrip [of cut1 run1_A]
  by (auto simp: example_names example_details example_counters)

subsection \<open>Adding two filters\<close>

text \<open>
  C3, as amended. \<^verbatim>\<open>Filter.add(left, right)\<close> raises the \<^verbatim>\<open>ValueError\<close> of the name
  mismatch exactly when the names differ. When the names are equal and every key of
  \<^verbatim>\<open>left.details\<close> is a key of \<^verbatim>\<open>right.details\<close>, it returns a filter with the name of
  \<open>left\<close> and the sums of \<^verbatim>\<open>total\<close> and of \<^verbatim>\<open>passing\<close>.
\<close>

theorem add_name_mismatch_and_sum:
  "(Filter_add l r = Inl ValueError \<longleftrightarrow> name l \<noteq> name r) \<and>
   (name l = name r \<and> fst ` set (details l) \<subseteq> fst ` set (details r) \<longrightarrow>
      (\<exists>f. Filter_add l r = Inr f \<and> name f = name l \<and>
           total_cnt f = total_cnt l + total_cnt r \<and> passing f = passing l + passing r))"
proof (intro conjI impI)
  show "Filter_add l r = Inl ValueError \<longleftrightarrow> name l \<noteq> name r"
  proof (cases "name l = name r")
    case True
    then show ?thesis
      by (cases "fst ` set (details l) \<subseteq> fst ` set (details r)")
         (simp_all add: Filter_add_ok Filter_add_KeyError)
  next
    case False
    then show ?thesis by (simp add: Filter_add_ValueError)
  qed
next
  assume "name l = name r \<and> fst ` set (details l) \<subseteq> fst ` set (details r)"
  then show "\<exists>f. Filter_add l r = Inr f \<and> name f = name l \<and>
           total_cnt f = total_cnt l + total_cnt r \<and> passing f = passing l + passing r"
    by (simp add: Filter_add_ok)
qed


text \<open>
  The scenario of the two runs of \<open>A\<close> (10 and 7, 5 and 3, giving 15 and 10), and the names
  \<open>cut1\<close> and \<open>cut2\<close>, which do not add.
\<close>

theorem add_name_mismatch_and_sum_witness:
  "name run1_A = name run2_A \<and> fst ` set (details run1_A) \<subseteq> fst ` set (details run2_A) \<and>
   (\<exists>f. Filter_add run1_A run2_A = Inr f \<and> name f = ''A'' \<and> total_cnt f = 15 \<and> passing f = 10) \<and>
   name cut1 \<noteq> name cut2 \<and> Filter_add cut1 cut2 = Inl ValueError"
  using add_name_mismatch_and_sum [of run1_A run2_A] add_name_mismatch_and_sum [of cut1 cut2]
  by (simp add: example_names example_details example_counters)

text \<open>
  C3 as it was stated fails: two filters of one name, \<open>A\<close>, whose sum is not a filter but
  a \<^verbatim>\<open>KeyError\<close>, since the key \<open>x\<close> of the left \<^verbatim>\<open>details\<close> is missing on the right.
\<close>

theorem add_same_name_counterexample:
  "name A_with_x = name run2_A \<and> Filter_add A_with_x run2_A = Inl KeyError"
  by (simp add: Filter_add_def example_names example_details)

text \<open>
  C5. For two filters of one name: \<^verbatim>\<open>Filter.add\<close> raises \<^verbatim>\<open>KeyError\<close> when a key of
  \<^verbatim>\<open>left.details\<close> is missing in \<^verbatim>\<open>right.details\<close>; when every key of the left is in the
  right, the result has the keys of the left only, so a key that only the right has is
  dropped; when the key sets are equal, every key maps to the sum of the two values.
\<close>

theorem add_details_key_sets:
  "(name l = name r \<and> (\<exists>k. k \<in> fst ` set (details l) \<and> k \<notin> fst ` set (details r)) \<longrightarrow>
      Filter_add l r = Inl KeyError) \<and>
   (name l = name r \<and> fst ` set (details l) \<subseteq> fst ` set (details r) \<longrightarrow>
      (\<exists>f. Filter_add l r = Inr f \<and> fst ` set (details f) = fst ` set (details l) \<and>
           (\<forall>k. k \<notin> fst ` set (details l) \<longrightarrow> map_of (details f) k = None))) \<and>
   (name l = name r \<and> fst ` set (details l) = fst ` set (details r) \<longrightarrow>
      (\<exists>f. Filter_add l r = Inr f \<and> fst ` set (details f) = fst ` set (details l) \<and>
           (\<forall>k a b. map_of (details l) k = Some a \<and> map_of (details r) k = Some b \<longrightarrow>
                    map_of (details f) k = Some (a + b))))"
proof -
  define g where "g = (\<lambda>k. the (map_of (details l) k) + the (map_of (details r) k))"
  define ps where "ps = map (\<lambda>k. (k, g k)) (map fst (details l))"
  define f0 :: "('a, 'b) Filter" where
    "f0 = (Filter_init ''Filter'' None False None None)
            \<lparr> name := name l, total_cnt := total_cnt l + total_cnt r,
              passing := passing l + passing r, details := dict_of ps \<rparr>"
  have ok: "Filter_add l r = Inr f0"
    if "name l = name r" "fst ` set (details l) \<subseteq> fst ` set (details r)"
    using Filter_add_ok [OF that] by (simp add: f0_def ps_def g_def)
  have d: "details f0 = dict_of ps" by (simp add: f0_def)
  have keys: "fst ` set (details f0) = fst ` set (details l)"
    unfolding d keys_dict_of by (simp add: ps_def image_image)
  have none: "map_of (details f0) k = None" if "k \<notin> fst ` set (details l)" for k
    using that keys by (simp add: map_of_eq_None_iff)
  have sums: "map_of (details f0) k = Some (a + b)"
    if "map_of (details l) k = Some a" "map_of (details r) k = Some b" for k a b
  proof -
    from that(1) have "(k, a) \<in> set (details l)" by (rule map_of_SomeD)
    then have "fst (k, a) \<in> fst ` set (details l)" by (rule imageI)
    then have "k \<in> set (map fst (details l))" by simp
    then have "map_of (rev ps) k = Some (g k)" unfolding ps_def by (rule map_of_sums)
    with that show ?thesis by (simp add: d map_of_dict_of g_def)
  qed
  have c1: "Filter_add l r = Inl KeyError"
    if "name l = name r \<and> (\<exists>k. k \<in> fst ` set (details l) \<and> k \<notin> fst ` set (details r))"
  proof -
    from that have "\<not> fst ` set (details l) \<subseteq> fst ` set (details r)" by blast
    with that show ?thesis by (simp add: Filter_add_KeyError)
  qed
  have c2: "\<exists>f. Filter_add l r = Inr f \<and> fst ` set (details f) = fst ` set (details l) \<and>
           (\<forall>k. k \<notin> fst ` set (details l) \<longrightarrow> map_of (details f) k = None)"
    if "name l = name r \<and> fst ` set (details l) \<subseteq> fst ` set (details r)"
    using that ok keys none by blast
  have c3: "\<exists>f. Filter_add l r = Inr f \<and> fst ` set (details f) = fst ` set (details l) \<and>
           (\<forall>k a b. map_of (details l) k = Some a \<and> map_of (details r) k = Some b \<longrightarrow>
                    map_of (details f) k = Some (a + b))"
    if h: "name l = name r \<and> fst ` set (details l) = fst ` set (details r)"
  proof -
    from h have "Filter_add l r = Inr f0" by (simp add: ok)
    with keys sums show ?thesis by blast
  qed
  from c1 c2 c3 show ?thesis by blast
qed

text \<open>The three cases on filters named \<open>A\<close>.\<close>

theorem add_details_key_sets_witness:
  "name A_with_x = name run2_A \<and>
   ''x'' \<in> fst ` set (details A_with_x) \<and> ''x'' \<notin> fst ` set (details run2_A) \<and>
   Filter_add A_with_x run2_A = Inl KeyError \<and>
   name A_with_x = name A_with_xy \<and>
   fst ` set (details A_with_x) \<subseteq> fst ` set (details A_with_xy) \<and>
   (\<exists>f. Filter_add A_with_x A_with_xy = Inr f \<and> fst ` set (details f) = {''x''} \<and>
        map_of (details f) ''y'' = None) \<and>
   fst ` set (details A_with_x) = fst ` set (details A_with_x') \<and>
   (\<exists>f. Filter_add A_with_x A_with_x' = Inr f \<and> map_of (details f) ''x'' = Some (Fin 3))"
proof -
  have 1: "name A_with_x = name run2_A \<and>
      (\<exists>k. k \<in> fst ` set (details A_with_x) \<and> k \<notin> fst ` set (details run2_A))"
    by (simp add: example_names example_details)
  have 2: "name A_with_x = name A_with_xy \<and>
      fst ` set (details A_with_x) \<subseteq> fst ` set (details A_with_xy)"
    by (simp add: example_names example_details)
  have 3: "name A_with_x = name A_with_x' \<and>
      fst ` set (details A_with_x) = fst ` set (details A_with_x')"
    by (simp add: example_names example_details)
  have a: "Filter_add A_with_x run2_A = Inl KeyError"
    using add_details_key_sets [of A_with_x run2_A, THEN conjunct1] 1 by (rule mp)
  from add_details_key_sets [of A_with_x A_with_xy, THEN conjunct2, THEN conjunct1, THEN mp, OF 2]
  obtain f where f: "Filter_add A_with_x A_with_xy = Inr f"
    "fst ` set (details f) = fst ` set (details A_with_x)"
    "\<forall>k. k \<notin> fst ` set (details A_with_x) \<longrightarrow> map_of (details f) k = None"
    by blast
  from f(3) have "map_of (details f) ''y'' = None" by (simp add: example_details)
  with f have b: "\<exists>f. Filter_add A_with_x A_with_xy = Inr f \<and> fst ` set (details f) = {''x''} \<and>
        map_of (details f) ''y'' = None"
    by (simp add: example_details)
  from add_details_key_sets [of A_with_x A_with_x', THEN conjunct2, THEN conjunct2, THEN mp, OF 3]
  obtain g where g: "Filter_add A_with_x A_with_x' = Inr g"
    "\<forall>k a b. map_of (details A_with_x) k = Some a \<and> map_of (details A_with_x') k = Some b \<longrightarrow>
                    map_of (details g) k = Some (a + b)"
    by blast
  from g(2) have "map_of (details g) ''x'' = Some (Fin 1 + Fin 2)"
    by (simp add: example_details)
  with g(1) have c: "\<exists>f. Filter_add A_with_x A_with_x' = Inr f \<and> map_of (details f) ''x'' = Some (Fin 3)"
    by simp
  from 1 2 3 a b c show ?thesis by (simp add: example_details)
qed

text \<open>
  C10. The filter that \<^verbatim>\<open>Filter.add\<close> returns has empty \<^verbatim>\<open>count_funcs\<close>,
  \<^verbatim>\<open>count_funcs_total\<close> and \<^verbatim>\<open>count_funcs_passing\<close>, whatever the tallies of the operands
  were, and its state mapping holds two empty tallies.
\<close>

theorem add_loses_weighted_tallies:
  assumes "Filter_add l r = Inr f"
  shows "count_funcs f = [] \<and> count_funcs_total f = [] \<and> count_funcs_passing f = [] \<and>
         map_of (Filter_getstate f) ''count_funcs_total'' = Some (PyDict []) \<and>
         map_of (Filter_getstate f) ''count_funcs_passing'' = Some (PyDict [])"
proof -
  from assms have
    "f = (Filter_init ''Filter'' None False None None)
           \<lparr> name := name l, total_cnt := total_cnt l + total_cnt r,
             passing := passing l + passing r,
             details := dict_of (map (\<lambda>k. (k, the (map_of (details l) k) + the (map_of (details r) k)))
                                    (map fst (details l))) \<rparr>"
    by (simp add: Filter_add_Inr_iff)
  then show ?thesis by (simp add: Filter_init_default_tallies Filter_getstate_def)
qed

text \<open>
  A filter that has tallied the weight 2 once, added to itself: the sum has no tallies.
\<close>

theorem add_loses_weighted_tallies_witness:
  "\<exists>l f. Filter_passed weighted () = Inr l \<and> count_funcs_total l = [(''w'', Fin 2)] \<and>
         count_funcs_passing l = [(''w'', Fin 2)] \<and> Filter_add l l = Inr f \<and>
         count_funcs f = [] \<and> count_funcs_total f = [] \<and> count_funcs_passing f = []"
proof -
  obtain l where l: "Filter_passed weighted () = Inr l" "count_funcs_total l = [(''w'', Fin 2)]"
    "count_funcs_passing l = [(''w'', Fin 2)]" "details l = []"
    by (simp add: weighted_def Filter_passed_def Filter_init_def zero_pyfloat_def Let_def)
  obtain f where f: "Filter_add l l = Inr f"
    using Filter_add_ok [of l l] by simp
  from add_loses_weighted_tallies [OF f] l f show ?thesis by blast
qed

subsection \<open>Counting calls\<close>

text \<open>
  C6. A fresh filter, constructed with any arguments, accepts every sequence of
  \<^verbatim>\<open>passed\<close> and \<^verbatim>\<open>failed\<close> calls; afterwards \<^verbatim>\<open>total\<close> is the number of calls and
  \<^verbatim>\<open>passing\<close> is the number of \<^verbatim>\<open>passed\<close> calls, so \<^verbatim>\<open>passing <= total\<close>.
\<close>

theorem fresh_filter_counts_calls:
  "\<exists>f. record_calls (Filter_init cls h p n c) calls = Inr f \<and>
       total_cnt f = int (length calls) \<and>
       passing f = int (length (filter is_pass calls)) \<and>
       passing f \<le> total_cnt f"
proof -
  from record_calls_counts [OF Filter_init_registered, of cls h p n c calls]
  obtain f where f: "record_calls (Filter_init cls h p n c) calls = Inr f"
    "total_cnt f = int (length calls)" "passing f = int (length (filter is_pass calls))"
    by (auto simp: Filter_init_fields)
  have "length (filter is_pass calls) \<le> length calls" by (rule length_filter_le)
  with f show ?thesis by auto
qed

text \<open>Two \<^verbatim>\<open>passed\<close> calls and one \<^verbatim>\<open>failed\<close> call on a fresh filter with a count function.\<close>

theorem fresh_filter_counts_calls_witness:
  "\<exists>f. record_calls weighted [Pass (), Fail (), Pass ()] = Inr f \<and>
       total_cnt f = 3 \<and> passing f = 2 \<and> passing f \<le> total_cnt f"
  using fresh_filter_counts_calls
    [of "''Filter''" None False "Some ''A''" "Some [(''w'', \<lambda>_. Fin 2)]" "[Pass (), Fail (), Pass ()]"]
  by (simp add: weighted_def)

subsection \<open>Calling an event filter\<close>

lemma EventFilter_call_total:
  assumes "tallies_registered f"
  shows "\<exists>w1 f1. EventFilter_call f e w = Inr (w1, f1, accepts f e)"
proof -
  from Filter_passed_registered [OF assms, of e] obtain fp where fp: "Filter_passed f e = Inr fp"
    by blast
  from Filter_failed_registered [OF assms, of e] obtain ff where ff: "Filter_failed f e = Inr ff"
    by blast
  show ?thesis
  proof (cases "passthrough f")
    case True
    with fp show ?thesis by (simp add: EventFilter_call_def accepts_def)
  next
    case False
    show ?thesis
    proof (cases "passes f e")
      case None
      with False show ?thesis by (simp add: EventFilter_call_def accepts_def)
    next
      case (Some b)
      with False fp ff show ?thesis by (cases b) (simp_all add: EventFilter_call_def accepts_def)
    qed
  qed
qed

text \<open>
  C7. An \<^verbatim>\<open>EventFilter\<close> that is not in passthrough mode: when \<^verbatim>\<open>passes\<close> answers
  \<^verbatim>\<open>None\<close>, the call returns false and the filter and the state outside it are as they
  were; when it answers false, the call is \<^verbatim>\<open>failed(event)\<close> and returns false, and no
  hook runs; when it answers true, the hooks run in their order, the call is
  \<^verbatim>\<open>passed(event)\<close>, and it returns true. A filter that has a tally for each of its
  count functions does return in each case.
\<close>

theorem event_filter_call_outcomes:
  assumes "\<not> passthrough self"
  shows "(passes self event = None \<longrightarrow> EventFilter_call self event w = Inr (w, self, False)) \<and>
         (passes self event = Some False \<longrightarrow>
            EventFilter_call self event w =
              (case Filter_failed self event of
                 Inl err \<Rightarrow> Inl err | Inr self' \<Rightarrow> Inr (w, self', False))) \<and>
         (passes self event = Some True \<longrightarrow>
            EventFilter_call self event w =
              (case Filter_passed self event of
                 Inl err \<Rightarrow> Inl err | Inr self' \<Rightarrow> Inr (run_hooks (hooks self) w, self', True))) \<and>
         (tallies_registered self \<longrightarrow>
            (\<exists>w' self'. EventFilter_call self event w =
               Inr (w', self', passes self event = Some True)))"
proof -
  have "\<exists>w' self'. EventFilter_call self event w = Inr (w', self', passes self event = Some True)"
    if "tallies_registered self"
    using EventFilter_call_total [OF that, of event w] assms by (simp add: accepts_def)
  with assms show ?thesis by (simp add: EventFilter_call_def)
qed

text \<open>The three answers of \<^verbatim>\<open>passes\<close>, on the events 0, - 3 and 3.\<close>

theorem event_filter_call_outcomes_witness:
  "\<not> passthrough positive_cut \<and> tallies_registered positive_cut \<and>
   passes positive_cut 0 = None \<and> EventFilter_call positive_cut 0 4 = Inr (4, positive_cut, False) \<and>
   passes positive_cut (- 3) = Some False \<and>
   (\<exists>f. EventFilter_call positive_cut (- 3) 4 = Inr (4, f, False) \<and>
        total_cnt f = 1 \<and> passing f = 0) \<and>
   passes positive_cut 3 = Some True \<and>
   (\<exists>f. EventFilter_call positive_cut 3 4 = Inr (5, f, True) \<and> total_cnt f = 1 \<and> passing f = 1)"
  using event_filter_call_outcomes [of positive_cut 0 4]
    event_filter_call_outcomes [of positive_cut "- 3" 4]
    event_filter_call_outcomes [of positive_cut 3 4]
  by (simp add: positive_cut_fields Filter_failed_def Filter_passed_def run_hooks_def
        tallies_registered_def)

subsection \<open>Calling an object filter\<close>

text \<open>
  C9. \<^verbatim>\<open>ObjectFilter.__call__\<close> returns the retained collection (the argument in
  passthrough mode, \<^verbatim>\<open>filtered(event, collection)\<close> otherwise), empty or not. With
  \<^verbatim>\<open>count_events\<close>, \<^verbatim>\<open>total\<close> grows by 1 and \<^verbatim>\<open>passing\<close> by 1 exactly when the retained
  collection is not empty. Without it, \<^verbatim>\<open>total\<close> grows by the size of the argument and
  \<^verbatim>\<open>passing\<close> by the size of the retained collection.
\<close>

theorem object_filter_call_counts:
  fixes self :: "('e, 'w, 'o, 'z) ObjectFilter_scheme"
  defines "retained \<equiv> \<lambda>(s :: ('e, 'w, 'o, 'z) ObjectFilter_scheme) e c. (if passthrough s then c else filtered s e c)"
  shows "snd (ObjectFilter_call self event collection) = retained self event collection \<and>
   (count_events self \<longrightarrow>
      total_cnt (fst (ObjectFilter_call self event collection)) = total_cnt self + 1 \<and>
      passing (fst (ObjectFilter_call self event collection)) =
        passing self + (if retained self event collection \<noteq> [] then 1 else 0)) \<and>
   (\<not> count_events self \<longrightarrow>
      total_cnt (fst (ObjectFilter_call self event collection)) =
        total_cnt self + int (length collection) \<and>
      passing (fst (ObjectFilter_call self event collection)) =
        passing self + int (length (retained self event collection)))"
  by (simp add: ObjectFilter_call_def Let_def retained_def)


text \<open>Both counting modes, on a collection with even numbers and on one without.\<close>

theorem object_filter_call_counts_witness:
  "snd (ObjectFilter_call (keep_evens True) () [1, 2, 3, 4]) = [2, 4] \<and>
   total_cnt (fst (ObjectFilter_call (keep_evens True) () [1, 2, 3, 4])) = 1 \<and>
   passing (fst (ObjectFilter_call (keep_evens True) () [1, 2, 3, 4])) = 1 \<and>
   snd (ObjectFilter_call (keep_evens True) () [1, 3]) = [] \<and>
   total_cnt (fst (ObjectFilter_call (keep_evens True) () [1, 3])) = 1 \<and>
   passing (fst (ObjectFilter_call (keep_evens True) () [1, 3])) = 0 \<and>
   snd (ObjectFilter_call (keep_evens False) () [1, 2, 3, 4]) = [2, 4] \<and>
   total_cnt (fst (ObjectFilter_call (keep_evens False) () [1, 2, 3, 4])) = 4 \<and>
   passing (fst (ObjectFilter_call (keep_evens False) () [1, 2, 3, 4])) = 2 \<and>
   snd (ObjectFilter_call (keep_evens False) () [1, 3]) = [] \<and>
   total_cnt (fst (ObjectFilter_call (keep_evens False) () [1, 3])) = 2 \<and>
   passing (fst (ObjectFilter_call (keep_evens False) () [1, 3])) = 0"
  using object_filter_call_counts [of "keep_evens True" "()" "[1, 2, 3, 4]"]
    object_filter_call_counts [of "keep_evens True" "()" "[1, 3]"]
    object_filter_call_counts [of "keep_evens False" "()" "[1, 2, 3, 4]"]
    object_filter_call_counts [of "keep_evens False" "()" "[1, 3]"]
  by (simp add: keep_evens_fields)


subsection \<open>Calling a list of event filters\<close>

lemma EventFilter_call_Inr:
  assumes "EventFilter_call f e w = Inr (w1, f1, ok)"
  shows "ok = accepts f e"
    and "ok \<Longrightarrow> w1 = run_hooks (hooks f) w \<and> Filter_passed f e = Inr f1"
    and "\<not> ok \<Longrightarrow> w1 = w \<and> (passes f e = None \<and> f1 = f \<or>
                              passes f e = Some False \<and> Filter_failed f e = Inr f1)"
proof -
  have "ok = accepts f e \<and>
        (ok \<longrightarrow> w1 = run_hooks (hooks f) w \<and> Filter_passed f e = Inr f1) \<and>
        (\<not> ok \<longrightarrow> w1 = w \<and> (passes f e = None \<and> f1 = f \<or>
                              passes f e = Some False \<and> Filter_failed f e = Inr f1))"
  proof (cases "passthrough f")
    case True
    with assms show ?thesis
      by (cases "Filter_passed f e") (simp_all add: EventFilter_call_def accepts_def)
  next
    case False
    show ?thesis
    proof (cases "passes f e")
      case None
      with False assms show ?thesis by (simp add: EventFilter_call_def accepts_def)
    next
      case (Some b)
      show ?thesis
      proof (cases b)
        case True
        with False Some assms show ?thesis
          by (cases "Filter_passed f e") (simp_all add: EventFilter_call_def accepts_def)
      next
        case b: False
        with False Some assms show ?thesis
          by (cases "Filter_failed f e") (simp_all add: EventFilter_call_def accepts_def)
      qed
    qed
  qed
  then show "ok = accepts f e"
    and "ok \<Longrightarrow> w1 = run_hooks (hooks f) w \<and> Filter_passed f e = Inr f1"
    and "\<not> ok \<Longrightarrow> w1 = w \<and> (passes f e = None \<and> f1 = f \<or>
                              passes f e = Some False \<and> Filter_failed f e = Inr f1)"
    by simp_all
qed

lemma EventFilter_call_registered:
  assumes "EventFilter_call f e w = Inr (w1, f1, ok)" "tallies_registered f"
  shows "tallies_registered f1"
proof (cases ok)
  case True
  with EventFilter_call_Inr(2) [OF assms(1)] have "Filter_passed f e = Inr f1" by simp
  with Filter_passed_registered [OF assms(2), of e] show ?thesis by simp
next
  case False
  with EventFilter_call_Inr(3) [OF assms(1)]
  have "passes f e = None \<and> f1 = f \<or> passes f e = Some False \<and> Filter_failed f e = Inr f1"
    by simp
  with Filter_failed_registered [OF assms(2), of e] assms(2) show ?thesis by auto
qed

lemma EventFilterList_call_total:
  assumes "list_all tallies_registered fs"
  shows "\<exists>w' fs'. EventFilterList_call fs e w =
           Inr (w', fs', list_all (\<lambda>f. accepts f e) fs)"
  using assms
proof (induction fs arbitrary: w)
  case Nil
  then show ?case by simp
next
  case (Cons f fs)
  from Cons.prems have reg: "tallies_registered f" "list_all tallies_registered fs" by simp_all
  from EventFilter_call_total [OF reg(1), of e w] obtain w1 f1 where
    c: "EventFilter_call f e w = Inr (w1, f1, accepts f e)" by blast
  show ?case
  proof (cases "accepts f e")
    case True
    from Cons.IH [OF reg(2), of w1] obtain w' fs' where
      "EventFilterList_call fs e w1 = Inr (w', fs', list_all (\<lambda>f. accepts f e) fs)" by blast
    with c True show ?thesis by simp
  next
    case False
    with c show ?thesis by simp
  qed
qed

lemma EventFilterList_call_Inr:
  assumes "EventFilterList_call fs e w = Inr (w', fs', r)"
  shows "r = list_all (\<lambda>f. accepts f e) fs \<and> length fs' = length fs \<and>
         drop (Suc (length (takeWhile (\<lambda>f. accepts f e) fs))) fs' =
           drop (Suc (length (takeWhile (\<lambda>f. accepts f e) fs))) fs \<and>
         w' = fold (\<lambda>f. run_hooks (hooks f)) (takeWhile (\<lambda>f. accepts f e) fs) w \<and>
         (\<forall>i < length (takeWhile (\<lambda>f. accepts f e) fs). Filter_passed (fs ! i) e = Inr (fs' ! i))"
  using assms
proof (induction fs arbitrary: w w' fs' r)
  case Nil
  then show ?case by auto
next
  case (Cons f fs)
  from Cons.prems obtain w1 f1 ok where c: "EventFilter_call f e w = Inr (w1, f1, ok)"
    by (cases "EventFilter_call f e w") auto
  note s = EventFilter_call_Inr [OF c]
  show ?case
  proof (cases ok)
    case False
    with Cons.prems c have "w' = w1" "fs' = f1 # fs" "r = False" by simp_all
    with False s show ?thesis by simp
  next
    case True
    with Cons.prems c obtain w2 fs2 r2 where
      rest: "EventFilterList_call fs e w1 = Inr (w2, fs2, r2)"
      by (cases "EventFilterList_call fs e w1") auto
    with Cons.prems c True have eq: "w' = w2" "fs' = f1 # fs2" "r = r2" by simp_all
    note ih = Cons.IH [OF rest]
    have "\<forall>i < Suc (length (takeWhile (\<lambda>f. accepts f e) fs)).
            Filter_passed ((f # fs) ! i) e = Inr ((f1 # fs2) ! i)"
    proof (intro allI impI)
      fix i assume "i < Suc (length (takeWhile (\<lambda>f. accepts f e) fs))"
      then show "Filter_passed ((f # fs) ! i) e = Inr ((f1 # fs2) ! i)"
        using ih s True by (cases i) simp_all
    qed
    with ih s True eq show ?thesis by simp
  qed
qed


text \<open>
  C8. \<^verbatim>\<open>EventFilterList.__call__\<close> calls the filters in their order and stops at the
  first one whose call is false:
  \<^item> the call of a single filter returns true exactly when the filter is in passthrough
    mode or its \<^verbatim>\<open>passes\<close> answers true (\<^const>\<open>accepts\<close>);
  \<^item> when every filter has a tally for each of its count functions, the call of the
    list returns, and it returns true exactly when every filter accepts the event;
  \<^item> whenever it returns, the list keeps its length, the filters after the first one
    that does not accept the event are the objects they were, only the hooks of the
    filters before it have run, in the order of the list, and each of those filters has
    recorded \<^verbatim>\<open>passed(event)\<close>.
\<close>

theorem event_filter_list_short_circuit:
  fixes fs :: "('e, 'w) EventFilter list"
  shows
  "(\<forall>(f :: ('e, 'w) EventFilter) w1 w2 f1 ok.
      EventFilter_call f event w1 = Inr (w2, f1, ok) \<longrightarrow> ok = accepts f event) \<and>
   (list_all tallies_registered fs \<longrightarrow>
      (\<exists>w' fs'. EventFilterList_call fs event w =
         Inr (w', fs', list_all (\<lambda>f. accepts f event) fs))) \<and>
   (\<forall>w' fs' r. EventFilterList_call fs event w = Inr (w', fs', r) \<longrightarrow>
      r = list_all (\<lambda>f. accepts f event) fs \<and> length fs' = length fs \<and>
      drop (Suc (length (takeWhile (\<lambda>f. accepts f event) fs))) fs' =
        drop (Suc (length (takeWhile (\<lambda>f. accepts f event) fs))) fs \<and>
      w' = fold (\<lambda>f. run_hooks (hooks f)) (takeWhile (\<lambda>f. accepts f event) fs) w \<and>
      (\<forall>i < length (takeWhile (\<lambda>f. accepts f event) fs).
         Filter_passed (fs ! i) event = Inr (fs' ! i)))"
proof (intro conjI allI impI)
  fix f :: "('e, 'w) EventFilter" and w1 w2 f1 ok
  assume "EventFilter_call f event w1 = Inr (w2, f1, ok)"
  then show "ok = accepts f event" by (rule EventFilter_call_Inr(1))
next
  assume "list_all tallies_registered fs"
  then show "\<exists>w' fs'. EventFilterList_call fs event w =
         Inr (w', fs', list_all (\<lambda>f. accepts f event) fs)"
    by (rule EventFilterList_call_total)
next
  fix w' fs' r
  assume c: "EventFilterList_call fs event w = Inr (w', fs', r)"
  note l = EventFilterList_call_Inr [OF c]
  from l show "r = list_all (\<lambda>f. accepts f event) fs" by (rule conjunct1)
  from l show "length fs' = length fs" by simp
  from l show "drop (Suc (length (takeWhile (\<lambda>f. accepts f event) fs))) fs' =
        drop (Suc (length (takeWhile (\<lambda>f. accepts f event) fs))) fs" by simp
  from l show "w' = fold (\<lambda>f. run_hooks (hooks f)) (takeWhile (\<lambda>f. accepts f event) fs) w"
    by simp
  fix i assume "i < length (takeWhile (\<lambda>f. accepts f event) fs)"
  with l show "Filter_passed (fs ! i) event = Inr (fs' ! i)" by simp
qed

text \<open>
  The filters \<open>A\<close>, \<open>B\<close>, \<open>C\<close> on the event 1: \<open>A\<close> passes, \<open>B\<close> rejects, the call
  returns false and \<open>C\<close> is untouched, its \<^verbatim>\<open>total\<close> still 0; the hook has run once, for
  \<open>A\<close>. The list of \<open>A\<close> and \<open>C\<close> returns true.
\<close>

lemma stage_fields:
  "\<not> passthrough stage_A" "\<not> passthrough stage_B" "\<not> passthrough stage_C"
  "passes stage_A = (\<lambda>_. Some True)" "passes stage_B = (\<lambda>_. Some False)"
  "passes stage_C = (\<lambda>_. Some True)"
  "hooks stage_A = Some [Suc]" "hooks stage_B = Some [Suc]" "hooks stage_C = Some [Suc]"
  "count_funcs stage_A = []" "count_funcs stage_B = []" "count_funcs stage_C = []"
  "total_cnt stage_A = 0" "total_cnt stage_B = 0" "total_cnt stage_C = 0"
  "passing stage_A = 0" "passing stage_B = 0" "passing stage_C = 0"
  by (simp_all add: stage_A_def stage_B_def stage_C_def EventFilter_init_def Filter_init_def
        Filter.defs EventFilter.defs)

theorem event_filter_list_short_circuit_witness:
  "list_all tallies_registered [stage_A, stage_B, stage_C] \<and>
   (\<exists>a b. EventFilterList_call [stage_A, stage_B, stage_C] 1 0 = Inr (1, [a, b, stage_C], False) \<and>
          total_cnt a = 1 \<and> passing a = 1 \<and> total_cnt b = 1 \<and> passing b = 0) \<and>
   total_cnt stage_C = 0 \<and>
   (\<exists>a c. EventFilterList_call [stage_A, stage_C] 1 0 = Inr (2, [a, c], True))"
proof -
  have reg: "list_all tallies_registered [stage_A, stage_B, stage_C]"
    by (simp add: tallies_registered_def stage_fields)
  have acc: "accepts stage_A 1" "\<not> accepts stage_B 1" "accepts stage_C 1"
    by (simp_all add: accepts_def stage_fields)
  note t = event_filter_list_short_circuit [of 1 "[stage_A, stage_B, stage_C]" 0]
  from t [THEN conjunct2, THEN conjunct1, THEN mp, OF reg] acc
  obtain w' fs' where c: "EventFilterList_call [stage_A, stage_B, stage_C] 1 0 = Inr (w', fs', False)"
    by auto
  from t [THEN conjunct2, THEN conjunct2, THEN spec, THEN spec, THEN spec, THEN mp, OF c] acc
  have p: "length fs' = Suc (Suc (Suc 0))" "drop (Suc (Suc 0)) fs' = [stage_C]" "w' = 1"
    "Filter_passed stage_A 1 = Inr (fs' ! 0)"
    by (simp_all add: run_hooks_def stage_fields)
  from p(1) obtain a b c' where fs': "fs' = [a, b, c']"
    by (cases fs'; cases "tl fs'"; cases "tl (tl fs')") auto
  with p have c': "c' = stage_C" and a: "Filter_passed stage_A 1 = Inr a" by simp_all
  from a have a': "total_cnt a = 1" "passing a = 1"
    by (auto simp: Filter_passed_def stage_fields)
  from c fs' c' have "total_cnt b = 1 \<and> passing b = 0"
    by (auto simp: EventFilter_call_def Filter_passed_def Filter_failed_def stage_fields)
  with c fs' c' p a' have 1: "\<exists>a b. EventFilterList_call [stage_A, stage_B, stage_C] 1 0 =
          Inr (1, [a, b, stage_C], False) \<and>
          total_cnt a = 1 \<and> passing a = 1 \<and> total_cnt b = 1 \<and> passing b = 0"
    by simp
  have 2: "\<exists>a c. EventFilterList_call [stage_A, stage_C] 1 0 = Inr (2, [a, c], True)"
    by (simp add: EventFilter_call_def Filter_passed_def run_hooks_def stage_fields)
  from reg 1 2 show ?thesis by (simp add: stage_fields)
qed

subsection \<open>Merging two lists\<close>

lemma map_of_defined_iff: "(\<exists>y. map_of xs k = Some y) \<longleftrightarrow> k \<in> fst ` set xs"
  using map_of_eq_None_iff [of xs k] by (cases "map_of xs k") simp_all

lemma addable_iff:
  "addable a b \<longleftrightarrow>
     (\<exists>f g. upgrade a = Inr f \<and> upgrade b = Inr g \<and> name f = name g \<and>
            fst ` set (details f) \<subseteq> fst ` set (details g))"
proof -
  have k: "list_all (\<lambda>k. \<exists>y. map_of (details g) k = Some y) (map fst (details f)) \<longleftrightarrow>
           fst ` set (details f) \<subseteq> fst ` set (details g)"
    for f g :: "('a, 'b) Filter"
    unfolding list_all_iff map_of_defined_iff by auto
  show ?thesis
    by (cases "upgrade a"; cases "upgrade b") (simp_all add: addable_def k)
qed

lemma addable_sum:
  assumes "addable a b"
  shows "\<exists>f g s. upgrade a = Inr f \<and> upgrade b = Inr g \<and> Filter_add f g = Inr s \<and>
           total_cnt s = total_cnt f + total_cnt g \<and> passing s = passing f + passing g \<and>
           name s = name f"
proof -
  from assms obtain f g where u: "upgrade a = Inr f" "upgrade b = Inr g"
    and c: "name f = name g" "fst ` set (details f) \<subseteq> fst ` set (details g)"
    unfolding addable_iff by blast
  from Filter_add_ok [OF c] u show ?thesis by simp
qed

lemma merge_loop_addable:
  assumes "list_all2 addable l1 l2"
  shows "\<exists>out. merge_loop (zip l1 l2) = Inr out \<and> length out = length l1 \<and>
           (\<forall>i < length l1. \<exists>f g s. upgrade (l1 ! i) = Inr f \<and> upgrade (l2 ! i) = Inr g \<and>
               Filter_add f g = Inr s \<and> out ! i = ItemFilter s)"
  using assms
proof (induction rule: list_all2_induct)
  case Nil
  then show ?case by simp
next
  case (Cons a l1 b l2)
  from addable_sum [OF Cons.hyps(1)] obtain f g s where
    h: "upgrade a = Inr f" "upgrade b = Inr g" "Filter_add f g = Inr s" by blast
  from Cons.IH obtain out where
    o: "merge_loop (zip l1 l2) = Inr out" "length out = length l1"
       "\<forall>i < length l1. \<exists>f g s. upgrade (l1 ! i) = Inr f \<and> upgrade (l2 ! i) = Inr g \<and>
               Filter_add f g = Inr s \<and> out ! i = ItemFilter s"
    by blast
  have "\<exists>f' g' s'. upgrade ((a # l1) ! i) = Inr f' \<and> upgrade ((b # l2) ! i) = Inr g' \<and>
               Filter_add f' g' = Inr s' \<and> (ItemFilter s # out) ! i = ItemFilter s'"
    if "i < length (a # l1)" for i
  proof (cases i)
    case 0
    with h show ?thesis by simp
  next
    case (Suc j)
    with that o(3) show ?thesis by simp
  qed
  with h o(1,2) show ?case by simp
qed

lemma upgrade_examples:
  "upgrade (ItemFilter f) = Inr f"
  "upgrade (ItemDict (Filter_getstate (counted nm t p))) = Inr (counted nm t p)"
  by (simp_all add: upgrade_def counted_def Filter_setstate_def Filter_getstate_def
        state_str_def state_int_def state_dict_def Filter_init_def)

lemma counted_fields:
  "name (counted nm t p) = nm" "total_cnt (counted nm t p) = t" "passing (counted nm t p) = p"
  "details (counted nm t p) = []"
  by (simp_all add: counted_def Filter_init_def)

text \<open>
  C4, as amended. Let two lists have the same length and, at each position, two
  elements (filters, or state mappings with all six keys) of one name such that every
  key of the left \<^verbatim>\<open>details\<close> is a key of the right one (\<^const>\<open>addable\<close>). Then
  \<^verbatim>\<open>FilterList.merge\<close> returns a list of the same length whose element at each position
  is the \<^verbatim>\<open>Filter.add\<close> of the two elements there, a state mapping being read into a
  fresh \<^verbatim>\<open>Filter()\<close> first. The \<^verbatim>\<open>total\<close> of the result is the sum of the totals of the
  two first elements and its \<^verbatim>\<open>passing\<close> is the sum of the passing counts of the two
  last elements; for empty lists both are 0.
\<close>

theorem merge_pairwise_sum:
  assumes "list_all2 addable list1 list2"
  shows "\<exists>out. FilterList_merge list1 list2 = Inr out \<and> length out = length list1 \<and>
           (\<forall>i < length list1. \<exists>f g s. upgrade (list1 ! i) = Inr f \<and> upgrade (list2 ! i) = Inr g \<and>
               Filter_add f g = Inr s \<and> out ! i = ItemFilter s) \<and>
           (if list1 = [] then FilterList_total out = Inr 0 \<and> FilterList_passing out = Inr 0
            else (\<exists>f g. upgrade (hd list1) = Inr f \<and> upgrade (hd list2) = Inr g \<and>
                        FilterList_total out = Inr (total_cnt f + total_cnt g)) \<and>
                 (\<exists>f g. upgrade (last list1) = Inr f \<and> upgrade (last list2) = Inr g \<and>
                        FilterList_passing out = Inr (passing f + passing g)))"
proof -
  from assms have len: "length list1 = length list2" by (rule list_all2_lengthD)
  from merge_loop_addable [OF assms] obtain out where
    o: "merge_loop (zip list1 list2) = Inr out" "length out = length list1"
    and each: "\<forall>i < length list1. \<exists>f g s. upgrade (list1 ! i) = Inr f \<and>
               upgrade (list2 ! i) = Inr g \<and> Filter_add f g = Inr s \<and> out ! i = ItemFilter s"
    by blast
  have sums: "\<exists>f g. upgrade (list1 ! i) = Inr f \<and> upgrade (list2 ! i) = Inr g \<and>
                item_total (out ! i) = Inr (total_cnt f + total_cnt g) \<and>
                item_passing (out ! i) = Inr (passing f + passing g)"
    if "i < length list1" for i
  proof -
    from each that obtain f g s where
      h: "upgrade (list1 ! i) = Inr f" "upgrade (list2 ! i) = Inr g"
         "Filter_add f g = Inr s" "out ! i = ItemFilter s"
      by blast
    from that assms have "addable (list1 ! i) (list2 ! i)" by (simp add: list_all2_nthD)
    from addable_sum [OF this] h show ?thesis
      by (simp add: item_total_def item_passing_def)
  qed
  have ends: "(\<exists>f g. upgrade (hd list1) = Inr f \<and> upgrade (hd list2) = Inr g \<and>
                        FilterList_total out = Inr (total_cnt f + total_cnt g)) \<and>
                 (\<exists>f g. upgrade (last list1) = Inr f \<and> upgrade (last list2) = Inr g \<and>
                        FilterList_passing out = Inr (passing f + passing g))"
    if ne: "list1 \<noteq> []"
  proof
    from ne len have ne2: "list2 \<noteq> []" by auto
    from ne have "0 < length list1" by simp
    from sums [OF this] obtain f g where
      "upgrade (list1 ! 0) = Inr f" "upgrade (list2 ! 0) = Inr g"
      "item_total (out ! 0) = Inr (total_cnt f + total_cnt g)"
      by blast
    with ne ne2 o(2)
    show "\<exists>f g. upgrade (hd list1) = Inr f \<and> upgrade (hd list2) = Inr g \<and>
                        FilterList_total out = Inr (total_cnt f + total_cnt g)"
      by (simp add: hd_conv_nth FilterList_total_def)
    from ne have "length list1 - 1 < length list1" by simp
    from sums [OF this] obtain f g where
      "upgrade (list1 ! (length list1 - 1)) = Inr f" "upgrade (list2 ! (length list1 - 1)) = Inr g"
      "item_passing (out ! (length list1 - 1)) = Inr (passing f + passing g)"
      by blast
    with ne ne2 o(2) len
    show "\<exists>f g. upgrade (last list1) = Inr f \<and> upgrade (last list2) = Inr g \<and>
                        FilterList_passing out = Inr (passing f + passing g)"
      by (simp add: last_conv_nth FilterList_passing_def)
  qed
  have empty: "FilterList_total out = Inr 0 \<and> FilterList_passing out = Inr 0" if "list1 = []"
    using that o(2) by (simp add: FilterList_total_def FilterList_passing_def)
  from o each ends empty show ?thesis
    by (simp add: FilterList_merge_def)
qed

text \<open>
  The cut-flows of the two runs: three stages, total 10 + 5 at the first stage and
  passing 2 + 1 at the last one.
\<close>

theorem merge_pairwise_sum_witness:
  "list_all2 addable flow_run1 flow_run2 \<and>
   (\<exists>out. FilterList_merge flow_run1 flow_run2 = Inr out \<and> length out = 3 \<and>
          FilterList_total out = Inr 15 \<and> FilterList_passing out = Inr 3)"
proof -
  have a: "list_all2 addable flow_run1 flow_run2"
    by (simp add: flow_run1_def flow_run2_def addable_def upgrade_examples counted_fields)
  have ne: "flow_run1 \<noteq> []" by (simp add: flow_run1_def)
  from merge_pairwise_sum [OF a] ne obtain out where
    o: "FilterList_merge flow_run1 flow_run2 = Inr out" "length out = length flow_run1"
    and t: "\<exists>f g. upgrade (hd flow_run1) = Inr f \<and> upgrade (hd flow_run2) = Inr g \<and>
                        FilterList_total out = Inr (total_cnt f + total_cnt g)"
    and p: "\<exists>f g. upgrade (last flow_run1) = Inr f \<and> upgrade (last flow_run2) = Inr g \<and>
                        FilterList_passing out = Inr (passing f + passing g)"
    by auto
  from t have "FilterList_total out = Inr 15"
    by (auto simp: flow_run1_def flow_run2_def upgrade_examples counted_fields)
  moreover from p have "FilterList_passing out = Inr 3"
    by (auto simp: flow_run1_def flow_run2_def upgrade_examples counted_fields)
  moreover from o have "length out = 3" by (simp add: flow_run1_def)
  ultimately show ?thesis using a o by simp
qed

text \<open>
  C4 as it was stated fails: two lists of one filter each, both named \<open>A\<close>, that
  \<^verbatim>\<open>merge\<close> does not add, since the key \<open>x\<close> of the left \<^verbatim>\<open>details\<close> is missing on the
  right.
\<close>

theorem merge_same_named_counterexample:
  "list_all2 same_named [ItemFilter A_with_x] [ItemFilter run2_A] \<and>
   FilterList_merge [ItemFilter A_with_x] [ItemFilter run2_A] = Inl KeyError"
  by (simp add: same_named_def upgrade_examples example_names FilterList_merge_def
        Filter_add_def example_details)

subsection \<open>The invariant of the counters\<close>

lemma pyfloat_add_both:
  fixes p t c :: pyfloat
  assumes "0 \<le> p" "p \<le> t" "0 \<le> c"
  shows "0 \<le> p + c \<and> p + c \<le> t + c"
  using assms by (cases p; cases t; cases c) (simp_all add: zero_pyfloat_def)

lemma pyfloat_add_total:
  fixes p t c :: pyfloat
  assumes "0 \<le> p" "p \<le> t" "0 \<le> c"
  shows "p \<le> t + c"
  using assms by (cases p; cases t; cases c) (simp_all add: zero_pyfloat_def)

lemma tally_sound_iff:
  "tally_sound pas tot k \<longleftrightarrow>
     (\<exists>p t. map_of pas k = Some p \<and> map_of tot k = Some t \<and> 0 \<le> p \<and> p \<le> t)"
  by (simp add: tally_sound_def split: option.splits)

lemma ordered_at_iff:
  "ordered_at pas tot k \<longleftrightarrow> (\<exists>p t. map_of pas k = Some p \<and> map_of tot k = Some t \<and> p \<le> t)"
  by (simp add: ordered_at_def split: option.splits)

lemma tally_sound_ordered: "tally_sound pas tot k \<Longrightarrow> ordered_at pas tot k"
  unfolding tally_sound_iff ordered_at_iff by blast

lemma passed_loop_sound:
  assumes "passed_loop cfs e tot pas = Inr (tot', pas')" "\<forall>k \<in> K. tally_sound pas tot k"
    and "list_all (\<lambda>kf. \<forall>event. 0 \<le> snd kf event) cfs"
  shows "\<forall>k \<in> K. tally_sound pas' tot' k"
  using assms
proof (induction cfs arbitrary: tot pas)
  case Nil
  then show ?case by simp
next
  case (Cons kf cfs)
  obtain nm func where kf: "kf = (nm, func)" by (cases kf)
  from Cons.prems(1) kf obtain t where t: "map_of tot nm = Some t"
    by (cases "map_of tot nm") (simp_all add: Let_def)
  from Cons.prems(1) kf t obtain p where p: "map_of pas nm = Some p"
    by (cases "map_of pas nm") (simp_all add: Let_def)
  let ?tot = "AList.update nm (t + func e) tot"
  let ?pas = "AList.update nm (p + func e) pas"
  from Cons.prems(1) kf t p have r: "passed_loop cfs e ?tot ?pas = Inr (tot', pas')"
    by (simp add: Let_def)
  from Cons.prems(3) kf have nn: "0 \<le> func e"
    and rest: "list_all (\<lambda>kf. \<forall>event. 0 \<le> snd kf event) cfs"
    by simp_all
  have "\<forall>k \<in> K. tally_sound ?pas ?tot k"
  proof
    fix k assume "k \<in> K"
    with Cons.prems(2) have s: "tally_sound pas tot k" by simp
    show "tally_sound ?pas ?tot k"
    proof (cases "k = nm")
      case True
      with s t p have "0 \<le> p" "p \<le> t" by (simp_all add: tally_sound_iff)
      from pyfloat_add_both [OF this nn] True show ?thesis
        by (simp add: tally_sound_iff AList.update_conv')
    next
      case False
      with s show ?thesis by (simp add: tally_sound_iff AList.update_conv')
    qed
  qed
  from Cons.IH [OF r this rest] show ?case .
qed

lemma failed_loop_sound:
  assumes "failed_loop cfs e tot = Inr tot'" "\<forall>k \<in> K. tally_sound pas tot k"
    and "list_all (\<lambda>kf. \<forall>event. 0 \<le> snd kf event) cfs"
  shows "\<forall>k \<in> K. tally_sound pas tot' k"
  using assms
proof (induction cfs arbitrary: tot)
  case Nil
  then show ?case by simp
next
  case (Cons kf cfs)
  obtain nm func where kf: "kf = (nm, func)" by (cases kf)
  from Cons.prems(1) kf obtain t where t: "map_of tot nm = Some t"
    by (cases "map_of tot nm") (simp_all add: Let_def)
  let ?tot = "AList.update nm (t + func e) tot"
  from Cons.prems(1) kf t have r: "failed_loop cfs e ?tot = Inr tot'"
    by (simp add: Let_def)
  from Cons.prems(3) kf have nn: "0 \<le> func e"
    and rest: "list_all (\<lambda>kf. \<forall>event. 0 \<le> snd kf event) cfs"
    by simp_all
  have "\<forall>k \<in> K. tally_sound pas ?tot k"
  proof
    fix k assume "k \<in> K"
    with Cons.prems(2) have s: "tally_sound pas tot k" by simp
    show "tally_sound pas ?tot k"
    proof (cases "k = nm")
      case True
      from s True t obtain p where p: "map_of pas nm = Some p" "0 \<le> p" "p \<le> t"
        by (auto simp: tally_sound_iff)
      from pyfloat_add_total [OF p(2,3) nn] p True show ?thesis
        by (simp add: tally_sound_iff AList.update_conv')
    next
      case False
      with s show ?thesis by (simp add: tally_sound_iff AList.update_conv')
    qed
  qed
  from Cons.IH [OF r this rest] show ?case .
qed

lemma tallies_sound_iff:
  "tallies_sound f \<longleftrightarrow>
     list_all (\<lambda>kf. \<forall>event. 0 \<le> snd kf event) (count_funcs f) \<and>
     (\<forall>k \<in> fst ` set (count_funcs f).
        tally_sound (count_funcs_passing f) (count_funcs_total f) k)"
  by (simp add: tallies_sound_def weights_nonneg_def list_all_iff)

lemma tallies_sound_extend [simp]: "tallies_sound (Filter.extend f z) = tallies_sound f"
  by (simp add: tallies_sound_def Filter.defs)

lemma tallies_sound_truncate [simp]: "tallies_sound (Filter.truncate f) = tallies_sound f"
  by (simp add: tallies_sound_def Filter.defs)

lemma Filter_init_tallies_sound:
  assumes "weights_nonneg c"
  shows "tallies_sound (Filter_init cls h p n c)"
proof -
  have "list_all (\<lambda>kf. \<forall>event. 0 \<le> snd kf event) (count_funcs (Filter_init cls h p n c))"
    using assms by (cases c) (simp_all add: Filter_init_fields weights_nonneg_def)
  moreover have "(0::pyfloat) \<le> 0" by (simp add: zero_pyfloat_def)
  ultimately show ?thesis
    by (simp add: tallies_sound_iff tally_sound_iff Filter_init_tallies)
qed

lemma Filter_passed_shape:
  assumes "Filter_passed f e = Inr f'"
  shows "\<exists>tot' pas'.
           passed_loop (count_funcs f) e (count_funcs_total f) (count_funcs_passing f) =
             Inr (tot', pas') \<and>
           f' = f\<lparr> total_cnt := total_cnt f + 1, passing := passing f + 1,
                   count_funcs_total := tot', count_funcs_passing := pas',
                   was_passed := True \<rparr>"
  using assms
  by (cases "passed_loop (count_funcs f) e (count_funcs_total f) (count_funcs_passing f)")
     (auto simp: Filter_passed_def)

lemma Filter_failed_shape:
  assumes "Filter_failed f e = Inr f'"
  shows "\<exists>tot'. failed_loop (count_funcs f) e (count_funcs_total f) = Inr tot' \<and>
           f' = f\<lparr> total_cnt := total_cnt f + 1, count_funcs_total := tot',
                   was_passed := False \<rparr>"
  using assms
  by (cases "failed_loop (count_funcs f) e (count_funcs_total f)")
     (auto simp: Filter_failed_def)

lemma Filter_passed_tallies:
  assumes "Filter_passed f e = Inr f'" "tallies_sound f"
  shows "tallies_sound f'"
proof -
  from Filter_passed_shape [OF assms(1)] obtain tot' pas' where
    l: "passed_loop (count_funcs f) e (count_funcs_total f) (count_funcs_passing f) =
          Inr (tot', pas')"
    and f': "f' = f\<lparr> total_cnt := total_cnt f + 1, passing := passing f + 1,
                   count_funcs_total := tot', count_funcs_passing := pas',
                   was_passed := True \<rparr>"
    by blast
  from assms(2) have w: "list_all (\<lambda>kf. \<forall>event. 0 \<le> snd kf event) (count_funcs f)"
    and s: "\<forall>k \<in> fst ` set (count_funcs f).
              tally_sound (count_funcs_passing f) (count_funcs_total f) k"
    by (simp_all add: tallies_sound_iff)
  from passed_loop_sound [OF l s w] w show ?thesis
    by (simp add: f' tallies_sound_iff)
qed

lemma Filter_failed_tallies:
  assumes "Filter_failed f e = Inr f'" "tallies_sound f"
  shows "tallies_sound f'"
proof -
  from Filter_failed_shape [OF assms(1)] obtain tot' where
    l: "failed_loop (count_funcs f) e (count_funcs_total f) = Inr tot'"
    and f': "f' = f\<lparr> total_cnt := total_cnt f + 1, count_funcs_total := tot',
                   was_passed := False \<rparr>"
    by blast
  from assms(2) have w: "list_all (\<lambda>kf. \<forall>event. 0 \<le> snd kf event) (count_funcs f)"
    and s: "\<forall>k \<in> fst ` set (count_funcs f).
              tally_sound (count_funcs_passing f) (count_funcs_total f) k"
    by (simp_all add: tallies_sound_iff)
  from failed_loop_sound [OF l s w] w show ?thesis
    by (simp add: f' tallies_sound_iff)
qed

lemma EventFilter_call_tallies:
  assumes "EventFilter_call f e w = Inr (w1, f1, ok)" "tallies_sound f"
  shows "tallies_sound f1"
proof (cases ok)
  case True
  with EventFilter_call_Inr(2) [OF assms(1)] have "Filter_passed f e = Inr f1" by simp
  then show ?thesis using assms(2) by (rule Filter_passed_tallies)
next
  case False
  with EventFilter_call_Inr(3) [OF assms(1)]
  have "passes f e = None \<and> f1 = f \<or> passes f e = Some False \<and> Filter_failed f e = Inr f1"
    by simp
  then show ?thesis
  proof
    assume "passes f e = None \<and> f1 = f"
    with assms(2) show ?thesis by simp
  next
    assume "passes f e = Some False \<and> Filter_failed f e = Inr f1"
    then have "Filter_failed f e = Inr f1" by simp
    then show ?thesis using assms(2) by (rule Filter_failed_tallies)
  qed
qed

lemma ObjectFilter_call_tallies:
  "tallies_sound (fst (ObjectFilter_call f e c)) = tallies_sound f"
  by (simp add: ObjectFilter_call_def Let_def tallies_sound_def)

lemma Filter_add_tallies:
  assumes "Filter_add l r = Inr s"
  shows "tallies_sound s"
proof -
  from assms have "count_funcs s = []"
    by (simp add: Filter_add_Inr_iff Filter_init_default_tallies)
  then show ?thesis by (simp add: tallies_sound_def weights_nonneg_def)
qed

lemma replay_tallies:
  assumes "weights_ok hist" "replay hist = Inr x"
  shows "tallies_sound (base x)"
  using assms
proof (induction hist arbitrary: x)
  case (New_Filter cls h p n c)
  then show ?case by (auto simp: Filter_init_tallies_sound)
next
  case (New_EventFilter cls pm h p n c)
  then show ?case by (auto simp: EventFilter_init_def Filter_init_tallies_sound)
next
  case (New_ObjectFilter cls fm ce h p n c)
  then show ?case by (auto simp: ObjectFilter_init_def Filter_init_tallies_sound)
next
  case (Then_passed hist e)
  from Then_passed.prems obtain x0 where x0: "replay hist = Inr x0" "obj_passed x0 e = Inr x"
    by (cases "replay hist") auto
  from Then_passed.IH [OF _ x0(1)] Then_passed.prems(1) have s: "tallies_sound (base x0)"
    by simp
  show ?case
  proof (cases x0)
    case (PlainObj f)
    with x0(2) obtain f' where "Filter_passed f e = Inr f'" "x = PlainObj f'"
      by (cases "Filter_passed f e") auto
    with s PlainObj Filter_passed_tallies [of f e f'] show ?thesis by simp
  next
    case (EventObj f)
    with x0(2) obtain f' where "Filter_passed f e = Inr f'" "x = EventObj f'"
      by (cases "Filter_passed f e") auto
    with s EventObj Filter_passed_tallies [of f e f'] show ?thesis by simp
  next
    case (ObjectObj f)
    with x0(2) obtain f' where "Filter_passed f e = Inr f'" "x = ObjectObj f'"
      by (cases "Filter_passed f e") auto
    with s ObjectObj Filter_passed_tallies [of f e f'] show ?thesis by simp
  qed
next
  case (Then_failed hist e)
  from Then_failed.prems obtain x0 where x0: "replay hist = Inr x0" "obj_failed x0 e = Inr x"
    by (cases "replay hist") auto
  from Then_failed.IH [OF _ x0(1)] Then_failed.prems(1) have s: "tallies_sound (base x0)"
    by simp
  show ?case
  proof (cases x0)
    case (PlainObj f)
    with x0(2) obtain f' where "Filter_failed f e = Inr f'" "x = PlainObj f'"
      by (cases "Filter_failed f e") auto
    with s PlainObj Filter_failed_tallies [of f e f'] show ?thesis by simp
  next
    case (EventObj f)
    with x0(2) obtain f' where "Filter_failed f e = Inr f'" "x = EventObj f'"
      by (cases "Filter_failed f e") auto
    with s EventObj Filter_failed_tallies [of f e f'] show ?thesis by simp
  next
    case (ObjectObj f)
    with x0(2) obtain f' where "Filter_failed f e = Inr f'" "x = ObjectObj f'"
      by (cases "Filter_failed f e") auto
    with s ObjectObj Filter_failed_tallies [of f e f'] show ?thesis by simp
  qed
next
  case (Then_call_event hist e w)
  from Then_call_event.prems obtain x0 where
    x0: "replay hist = Inr x0" "obj_call_event x0 e w = Inr x"
    by (cases "replay hist") auto
  from Then_call_event.IH [OF _ x0(1)] Then_call_event.prems(1)
  have s: "tallies_sound (base x0)" by simp
  show ?case
  proof (cases x0)
    case (EventObj f)
    with x0(2) obtain w1 f1 ok where "EventFilter_call f e w = Inr (w1, f1, ok)" "x = EventObj f1"
      by (cases "EventFilter_call f e w") auto
    with s EventObj EventFilter_call_tallies [of f e w w1 f1 ok] show ?thesis by simp
  next
    case (PlainObj f)
    with x0(2) show ?thesis by simp
  next
    case (ObjectObj f)
    with x0(2) show ?thesis by simp
  qed
next
  case (Then_call_object hist e c)
  from Then_call_object.prems obtain x0 where
    x0: "replay hist = Inr x0" "obj_call_object x0 e c = Inr x"
    by (cases "replay hist") auto
  from Then_call_object.IH [OF _ x0(1)] Then_call_object.prems(1)
  have s: "tallies_sound (base x0)" by simp
  show ?case
  proof (cases x0)
    case (ObjectObj f)
    with x0(2) have "x = ObjectObj (fst (ObjectFilter_call f e c))" by simp
    with s ObjectObj show ?thesis by (simp add: ObjectFilter_call_tallies)
  next
    case (PlainObj f)
    with x0(2) show ?thesis by simp
  next
    case (EventObj f)
    with x0(2) show ?thesis by simp
  qed
next
  case (Added hl hr)
  from Added.prems obtain l where l: "replay hl = Inr l"
    by (cases "replay hl") auto
  from Added.prems l obtain r where r: "replay hr = Inr r"
    by (cases "replay hr") auto
  from Added.prems l r obtain s where s: "Filter_add (base l) (base r) = Inr s" "x = PlainObj s"
    by (cases "Filter_add (base l) (base r)") auto
  from Filter_add_tallies [OF s(1)] s(2) show ?case by simp
qed


lemma Filter_passed_filtered:
  fixes f :: "('e, 'w, 'o, 'z) ObjectFilter_scheme"
  assumes "Filter_passed f e = Inr f'"
  shows "filtered f' = filtered f"
  using Filter_passed_shape [OF assms] by auto

lemma Filter_failed_filtered:
  fixes f :: "('e, 'w, 'o, 'z) ObjectFilter_scheme"
  assumes "Filter_failed f e = Inr f'"
  shows "filtered f' = filtered f"
  using Filter_failed_shape [OF assms] by auto

lemma Filter_passed_counts:
  assumes "Filter_passed f e = Inr f'" "passing f \<le> total_cnt f"
  shows "passing f' \<le> total_cnt f'"
  using Filter_passed_shape [OF assms(1)] assms(2) by auto

lemma Filter_failed_counts:
  assumes "Filter_failed f e = Inr f'" "passing f \<le> total_cnt f"
  shows "passing f' \<le> total_cnt f'"
  using Filter_failed_shape [OF assms(1)] assms(2) by auto

lemma EventFilter_call_counts:
  assumes "EventFilter_call f e w = Inr (w1, f1, ok)" "passing f \<le> total_cnt f"
  shows "passing f1 \<le> total_cnt f1"
proof (cases ok)
  case True
  with EventFilter_call_Inr(2) [OF assms(1)] have "Filter_passed f e = Inr f1" by simp
  then show ?thesis using assms(2) by (rule Filter_passed_counts)
next
  case False
  with EventFilter_call_Inr(3) [OF assms(1)]
  have "passes f e = None \<and> f1 = f \<or> passes f e = Some False \<and> Filter_failed f e = Inr f1"
    by simp
  then show ?thesis
  proof
    assume "passes f e = None \<and> f1 = f"
    with assms(2) show ?thesis by simp
  next
    assume "passes f e = Some False \<and> Filter_failed f e = Inr f1"
    then have "Filter_failed f e = Inr f1" by simp
    then show ?thesis using assms(2) by (rule Filter_failed_counts)
  qed
qed

lemma ObjectFilter_call_counts:
  assumes "passing f \<le> total_cnt f" "shrinking (filtered f)"
  shows "passing (fst (ObjectFilter_call f e c)) \<le> total_cnt (fst (ObjectFilter_call f e c)) \<and>
         filtered (fst (ObjectFilter_call f e c)) = filtered f"
proof -
  from assms(2) have "length (filtered f e c) \<le> length c" by (simp add: shrinking_def)
  with assms(1) show ?thesis
    by (simp add: ObjectFilter_call_def Let_def)
qed

lemma Filter_add_counts:
  assumes "Filter_add l r = Inr s" "passing l \<le> total_cnt l" "passing r \<le> total_cnt r"
  shows "passing s \<le> total_cnt s"
proof -
  from assms(1) have "total_cnt s = total_cnt l + total_cnt r" "passing s = passing l + passing r"
    by (simp_all add: Filter_add_Inr_iff)
  with assms(2,3) show ?thesis by simp
qed

lemma counts_sound_base: "counts_sound x \<Longrightarrow> passing (base x) \<le> total_cnt (base x)"
  by (cases x) (simp_all add: Filter.defs)

lemma filtered_extend_fields [simp]:
  "filtered (Filter.extend f (ObjectFilter.fields ce fm)) = fm"
  by (simp add: Filter.defs ObjectFilter.defs)

lemma counts_extend [simp]:
  "passing (Filter.extend f z) = passing f" "total_cnt (Filter.extend f z) = total_cnt f"
  by (simp_all add: Filter.defs)

lemma replay_counts:
  assumes "filtered_ok hist" "replay hist = Inr x"
  shows "counts_sound x"
  using assms
proof (induction hist arbitrary: x)
  case (New_Filter cls h p n c)
  then show ?case by (auto simp: Filter_init_fields)
next
  case (New_EventFilter cls pm h p n c)
  then show ?case by (auto simp: EventFilter_init_def Filter_init_fields)
next
  case (New_ObjectFilter cls fm ce h p n c)
  then show ?case by (auto simp: ObjectFilter_init_def Filter_init_fields)
next
  case (Then_passed hist e)
  from Then_passed.prems obtain x0 where x0: "replay hist = Inr x0" "obj_passed x0 e = Inr x"
    by (cases "replay hist") auto
  from Then_passed.IH [OF _ x0(1)] Then_passed.prems(1) have s: "counts_sound x0" by simp
  show ?case
  proof (cases x0)
    case (PlainObj f)
    with x0(2) obtain f' where "Filter_passed f e = Inr f'" "x = PlainObj f'"
      by (cases "Filter_passed f e") auto
    with s PlainObj Filter_passed_counts [of f e f'] show ?thesis by simp
  next
    case (EventObj f)
    with x0(2) obtain f' where "Filter_passed f e = Inr f'" "x = EventObj f'"
      by (cases "Filter_passed f e") auto
    with s EventObj Filter_passed_counts [of f e f'] show ?thesis by simp
  next
    case (ObjectObj f)
    with x0(2) obtain f' where "Filter_passed f e = Inr f'" "x = ObjectObj f'"
      by (cases "Filter_passed f e") auto
    with s ObjectObj Filter_passed_counts [of f e f'] Filter_passed_filtered [of f e f']
    show ?thesis by simp
  qed
next
  case (Then_failed hist e)
  from Then_failed.prems obtain x0 where x0: "replay hist = Inr x0" "obj_failed x0 e = Inr x"
    by (cases "replay hist") auto
  from Then_failed.IH [OF _ x0(1)] Then_failed.prems(1) have s: "counts_sound x0" by simp
  show ?case
  proof (cases x0)
    case (PlainObj f)
    with x0(2) obtain f' where "Filter_failed f e = Inr f'" "x = PlainObj f'"
      by (cases "Filter_failed f e") auto
    with s PlainObj Filter_failed_counts [of f e f'] show ?thesis by simp
  next
    case (EventObj f)
    with x0(2) obtain f' where "Filter_failed f e = Inr f'" "x = EventObj f'"
      by (cases "Filter_failed f e") auto
    with s EventObj Filter_failed_counts [of f e f'] show ?thesis by simp
  next
    case (ObjectObj f)
    with x0(2) obtain f' where "Filter_failed f e = Inr f'" "x = ObjectObj f'"
      by (cases "Filter_failed f e") auto
    with s ObjectObj Filter_failed_counts [of f e f'] Filter_failed_filtered [of f e f']
    show ?thesis by simp
  qed
next
  case (Then_call_event hist e w)
  from Then_call_event.prems obtain x0 where
    x0: "replay hist = Inr x0" "obj_call_event x0 e w = Inr x"
    by (cases "replay hist") auto
  from Then_call_event.IH [OF _ x0(1)] Then_call_event.prems(1)
  have s: "counts_sound x0" by simp
  show ?case
  proof (cases x0)
    case (EventObj f)
    with x0(2) obtain w1 f1 ok where "EventFilter_call f e w = Inr (w1, f1, ok)" "x = EventObj f1"
      by (cases "EventFilter_call f e w") auto
    with s EventObj EventFilter_call_counts [of f e w w1 f1 ok] show ?thesis by simp
  next
    case (PlainObj f)
    with x0(2) show ?thesis by simp
  next
    case (ObjectObj f)
    with x0(2) show ?thesis by simp
  qed
next
  case (Then_call_object hist e c)
  from Then_call_object.prems obtain x0 where
    x0: "replay hist = Inr x0" "obj_call_object x0 e c = Inr x"
    by (cases "replay hist") auto
  from Then_call_object.IH [OF _ x0(1)] Then_call_object.prems(1)
  have s: "counts_sound x0" by simp
  show ?case
  proof (cases x0)
    case (ObjectObj f)
    with x0(2) have "x = ObjectObj (fst (ObjectFilter_call f e c))" by simp
    with s ObjectObj ObjectFilter_call_counts [of f e c] show ?thesis by simp
  next
    case (PlainObj f)
    with x0(2) show ?thesis by simp
  next
    case (EventObj f)
    with x0(2) show ?thesis by simp
  qed
next
  case (Added hl hr)
  from Added.prems obtain l where l: "replay hl = Inr l"
    by (cases "replay hl") auto
  from Added.prems l obtain r where r: "replay hr = Inr r"
    by (cases "replay hr") auto
  from Added.prems l r obtain s where s: "Filter_add (base l) (base r) = Inr s" "x = PlainObj s"
    by (cases "Filter_add (base l) (base r)") auto
  from Added.IH(1) [OF _ l] Added.IH(2) [OF _ r] Added.prems(1)
  have "passing (base l) \<le> total_cnt (base l)" "passing (base r) \<le> total_cnt (base r)"
    by (simp_all add: counts_sound_base)
  from Filter_add_counts [OF s(1) this] s(2) show ?case by simp
qed

text \<open>
  C1, as amended. Take a filter of any of the three classes that was constructed and
  then went through any sequence of \<^verbatim>\<open>passed\<close>, \<^verbatim>\<open>failed\<close>, \<^verbatim>\<open>EventFilter.__call__\<close> and
  \<^verbatim>\<open>ObjectFilter.__call__\<close>, or that is the \<^verbatim>\<open>add\<close> of two such filters.
  \<^item> \<^verbatim>\<open>passing <= total\<close> holds whatever the count functions return, for object filters
    whose \<^verbatim>\<open>filtered\<close> returns a part of the collection it is given (no more objects
    than the collection has).
  \<^item> If every weight \<open>w\<close> that a count function returns satisfies \<^verbatim>\<open>0 <= w\<close>, so that it
    is neither negative nor a NaN, then every label of \<^verbatim>\<open>count_funcs\<close> has both tallies
    with \<^verbatim>\<open>count_funcs_passing[k] <= count_funcs_total[k]\<close>, whatever \<^verbatim>\<open>filtered\<close> does.
\<close>

theorem counters_ordered_invariant:
  assumes "replay hist = Inr x"
  shows "(filtered_ok hist \<longrightarrow> passing (base x) \<le> total_cnt (base x)) \<and>
         (weights_ok hist \<longrightarrow>
            list_all (ordered_at (count_funcs_passing (base x)) (count_funcs_total (base x)))
              (map fst (count_funcs (base x)))) \<and>
         (filtered_ok hist \<and> weights_ok hist \<longrightarrow> counters_ordered (base x))"
proof -
  have c: "passing (base x) \<le> total_cnt (base x)" if "filtered_ok hist"
    using replay_counts [OF that assms] by (rule counts_sound_base)
  have t: "list_all (ordered_at (count_funcs_passing (base x)) (count_funcs_total (base x)))
              (map fst (count_funcs (base x)))" if "weights_ok hist"
  proof -
    from replay_tallies [OF that assms] have
      "\<forall>k \<in> fst ` set (count_funcs (base x)).
         tally_sound (count_funcs_passing (base x)) (count_funcs_total (base x)) k"
      by (simp add: tallies_sound_iff)
    then show ?thesis by (simp add: list_all_iff tally_sound_ordered)
  qed
  from c t show ?thesis by (simp add: counters_ordered_def)
qed

text \<open>
  An event filter with a tally after one accepted and one rejected event, and its sum
  with an object filter; and the filter with the weight - 1, whose counts are in order
  though its tallies are not.
\<close>

theorem counters_ordered_invariant_witness:
  "filtered_ok sample_event_history \<and> weights_ok sample_event_history \<and>
   (\<exists>x. replay sample_event_history = Inr x \<and> counters_ordered (base x) \<and>
        total_cnt (base x) = 2 \<and> passing (base x) = 1 \<and>
        count_funcs_total (base x) = [(''cut'', Fin 4)] \<and>
        count_funcs_passing (base x) = [(''cut'', Fin 2)]) \<and>
   filtered_ok sample_history \<and> weights_ok sample_history \<and>
   (\<exists>x. replay sample_history = Inr x \<and> counters_ordered (base x) \<and>
        total_cnt (base x) = 7 \<and> passing (base x) = 4) \<and>
   filtered_ok negative_weight_failed \<and>
   replay negative_weight_failed = Inr (PlainObj negative_weight_result) \<and>
   passing (base (PlainObj negative_weight_result)) \<le>
     total_cnt (base (PlainObj negative_weight_result))"
proof -
  have ok: "filtered_ok sample_event_history" "weights_ok sample_event_history"
    "filtered_ok sample_object_history" "weights_ok sample_object_history"
    by (simp_all add: sample_event_history_def sample_object_history_def weights_nonneg_def
          shrinking_def zero_pyfloat_def)
  then have ok': "filtered_ok sample_history" "weights_ok sample_history"
    by (simp_all add: sample_history_def)
  obtain x where x: "replay sample_event_history = Inr x"
    "total_cnt (base x) = 2" "passing (base x) = 1"
    "count_funcs_total (base x) = [(''cut'', Fin 4)]"
    "count_funcs_passing (base x) = [(''cut'', Fin 2)]"
    "name (base x) = ''cut''" "details (base x) = []"
    by (simp add: sample_event_history_def EventFilter_init_def Filter_init_def
          EventFilter_call_def Filter_passed_def Filter_failed_def run_hooks_def
          Filter.defs EventFilter.defs zero_pyfloat_def Let_def)
  obtain y where y: "replay sample_object_history = Inr y"
    "total_cnt (base y) = 5" "passing (base y) = 3" "name (base y) = ''cut''"
    "details (base y) = []"
    by (simp add: sample_object_history_def ObjectFilter_init_def Filter_init_def
          ObjectFilter_call_def Filter_passed_def Filter.defs ObjectFilter.defs)
  from x y have same: "name (base x) = name (base y)"
    "fst ` set (details (base x)) \<subseteq> fst ` set (details (base y))"
    by simp_all
  from Filter_add_ok [OF same] obtain s where s: "Filter_add (base x) (base y) = Inr s"
    "total_cnt s = total_cnt (base x) + total_cnt (base y)"
    "passing s = passing (base x) + passing (base y)"
    by simp
  from x(1) y(1) s(1) have r: "replay sample_history = Inr (PlainObj s)"
    by (simp add: sample_history_def)
  have n: "filtered_ok negative_weight_failed"
    "replay negative_weight_failed = Inr (PlainObj negative_weight_result)"
    by (simp_all add: negative_weight_failed_def negative_weight_result_def Filter_init_def
          Filter_failed_def zero_pyfloat_def Let_def)
  from counters_ordered_invariant [OF x(1)] ok
  have 1: "counters_ordered (base x)" by simp
  from counters_ordered_invariant [OF r] ok'
  have 2: "counters_ordered (base (PlainObj s))" by simp
  from counters_ordered_invariant [OF n(2)] n(1)
  have 3: "passing (base (PlainObj negative_weight_result)) \<le>
     total_cnt (base (PlainObj negative_weight_result))" by simp
  from ok ok' x y s r n 1 2 3 show ?thesis by simp
qed

text \<open>
  C1 as it was stated fails, in its second half. After one \<^verbatim>\<open>failed\<close> call, a filter
  whose count function returns - 1 has the tallies 0 (passing) and - 1 (total). After
  one \<^verbatim>\<open>passed\<close> call, a filter whose count function returns a NaN has two NaN tallies,
  and \<^verbatim>\<open>nan <= nan\<close> is false.
\<close>

theorem counters_ordered_counterexample:
  "replay negative_weight_failed = Inr (PlainObj negative_weight_result) \<and>
   \<not> counters_ordered (base (PlainObj negative_weight_result)) \<and>
   replay nan_weight_passed = Inr (PlainObj nan_weight_result) \<and>
   \<not> counters_ordered (base (PlainObj nan_weight_result))"
proof (intro conjI)
  show "replay negative_weight_failed = Inr (PlainObj negative_weight_result)"
    by (simp add: negative_weight_failed_def negative_weight_result_def Filter_init_def
          Filter_failed_def zero_pyfloat_def Let_def)
  show "\<not> counters_ordered (base (PlainObj negative_weight_result))"
    by (simp add: negative_weight_result_def counters_ordered_def ordered_at_def)
  show "replay nan_weight_passed = Inr (PlainObj nan_weight_result)"
    by (simp add: nan_weight_passed_def nan_weight_result_def Filter_init_def
          Filter_passed_def zero_pyfloat_def Let_def)
  show "\<not> counters_ordered (base (PlainObj nan_weight_result))"
    by (simp add: nan_weight_result_def counters_ordered_def ordered_at_def)
qed

end
